theory Spec2Isabelle
  imports Main "HOL-Library.Monad_Syntax"
begin

section \<open>Login endpoints of the LastPass command line client (endpoints-login.c)\<close>

subsection \<open>C strings and the multifactor table\<close>

text \<open>
  A C string is a \<open>string\<close>; a \<open>char *\<close> that may be \<open>NULL\<close> is a \<open>string option\<close>.
  \<open>cstring\<close> reads a byte buffer as a C string: the bytes before the first NUL.
\<close>

definition cstring :: "string \<Rightarrow> string" where
  "cstring buf = takeWhile (\<lambda>c. c \<noteq> CHR 0x00) buf"

record multifactor_type =
  name :: string
  error_str :: string
  error_failure_str :: string
  post_var :: string

definition multifactor_types :: "multifactor_type list" where
  "multifactor_types =
    [\<lparr>name = ''Google Authenticator Code'', error_str = ''googleauthrequired'',
       error_failure_str = ''googleauthfailed'', post_var = ''otp''\<rparr>,
     \<lparr>name = ''YubiKey OTP'', error_str = ''otprequired'',
       error_failure_str = ''otpfailed'', post_var = ''otp''\<rparr>,
     \<lparr>name = ''Sesame OTP'', error_str = ''sesameotprequired'',
       error_failure_str = ''sesameotpfailed'', post_var = ''sesameotp''\<rparr>,
     \<lparr>name = ''Out-of-Band OTP'', error_str = ''outofbandrequired'',
       error_failure_str = ''multifactorresponsefailed'', post_var = ''otp''\<rparr>,
     \<lparr>name = ''Microsoft Authenticator Code'', error_str = ''microsoftauthrequired'',
       error_failure_str = ''microsoftauthfailed'', post_var = ''otp''\<rparr>]"

text \<open>
  The lookup loop at the head of \<open>otp_login\<close>: the first entry whose \<open>error_str\<close> is the
  cause, \<open>None\<close> for \<open>replied_multifactor == NULL\<close>.
\<close>

fun find_multifactor :: "multifactor_type list \<Rightarrow> string \<Rightarrow> multifactor_type option" where
  "find_multifactor [] c = None"
| "find_multifactor (m # ms) c = (if error_str m = c then Some m else find_multifactor ms c)"

subsection \<open>filter_error_message\<close>

text \<open>
  \<open>strstr haystack needle\<close> is the offset of the first occurrence of the needle, \<open>None\<close>
  for \<open>NULL\<close>.
\<close>

fun strstr :: "string \<Rightarrow> string \<Rightarrow> nat option" where
  "strstr [] needle = (if needle = [] then Some 0 else None)"
| "strstr (c # cs) needle =
     (if take (length needle) (c # cs) = needle then Some 0
      else map_option Suc (strstr cs needle))"

definition upgrade_notice :: string where
  "upgrade_notice = '' Upgrade your browser extension so you can enter it.''"

definition filter_error_message :: "string \<Rightarrow> string" where
  "filter_error_message message =
     (case strstr message upgrade_notice of
        None \<Rightarrow> message
      | Some nullit \<Rightarrow> take nullit message)"

subsection \<open>append_post\<close>

text \<open>
  The argument vector is a fixed array of \<open>char *\<close>, names and values alternating, ended by
  \<open>NULL\<close>. An access outside the array is an error of its own.
\<close>

datatype fatal = Die string | NullDeref | OutOfBounds

type_synonym args = "string option list"

text \<open>The \<open>while\<close> loop: the first slot that is \<open>NULL\<close> or equal to the name; it visits
  every slot, names and values alike.\<close>

fun scan_args :: "args \<Rightarrow> string \<Rightarrow> nat" where
  "scan_args [] nam = 0"
| "scan_args (a # as) nam =
     (case a of None \<Rightarrow> 0
      | Some s \<Rightarrow> if s = nam then 0 else Suc (scan_args as nam))"

definition append_post :: "args \<Rightarrow> string \<Rightarrow> string option \<Rightarrow> fatal + args" where
  "append_post as nam val =
     (let last = scan_args as nam in
      if Suc last < length as then Inr (as[last := Some nam, Suc last := val])
      else Inl OutOfBounds)"

text \<open>How the transport reads the vector: pairs of a name and a value up to the first
  \<open>NULL\<close> name.\<close>

fun post_pairs :: "args \<Rightarrow> (string \<times> string option) list" where
  "post_pairs (Some n # v # rest) = (n, v) # post_pairs rest"
| "post_pairs _ = []"

text \<open>The vector, without its \<open>NULL\<close> end, that holds the given fields in order.\<close>

definition fields_vector :: "(string \<times> string option) list \<Rightarrow> args" where
  "fields_vector nvs = concat (map (\<lambda>(n, v). [Some n, v]) nvs)"

subsection \<open>has_capabilities\<close>

text \<open>
  \<open>strtok\<close> on a one-character delimiter: skip delimiters, return the token up to the next
  delimiter and the text after that delimiter; \<open>None\<close> when no token is left.
\<close>

definition strtok :: "string \<Rightarrow> char \<Rightarrow> (string \<times> string) option" where
  "strtok s d =
     (case dropWhile (\<lambda>c. c = d) s of
        [] \<Rightarrow> None
      | t \<Rightarrow> Some (takeWhile (\<lambda>c. c \<noteq> d) t, drop 1 (dropWhile (\<lambda>c. c \<noteq> d) t)))"

function tokens_have :: "string \<Rightarrow> string \<Rightarrow> bool" where
  "tokens_have caps capability =
     (case strtok caps CHR '','' of
        None \<Rightarrow> False
      | Some (token, rest) \<Rightarrow> if capability = token then True else tokens_have rest capability)"
  by pat_completeness auto
termination
proof (relation "measure (\<lambda>(caps, capability). length caps)")
  fix caps capability :: string and x2 :: "string \<times> string" and tok rest :: string
  assume a: "strtok caps CHR '','' = Some x2" "(tok, rest) = x2"
  define t where "t = dropWhile (\<lambda>c. c = CHR '','') caps"
  from a obtain c cs where t: "t = c # cs"
    unfolding strtok_def t_def[symmetric] by (cases t) simp_all
  from a have r: "rest = drop 1 (dropWhile (\<lambda>c. c \<noteq> CHR '','') t)"
    unfolding strtok_def t_def[symmetric] by (auto simp add: t)
  have "c \<noteq> CHR '',''"
    using t hd_dropWhile[of "\<lambda>c. c = CHR '',''" caps] unfolding t_def by fastforce
  then have "dropWhile (\<lambda>c. c \<noteq> CHR '','') t = dropWhile (\<lambda>c. c \<noteq> CHR '','') cs"
    using t by simp
  then have "length rest \<le> length cs"
    using r length_dropWhile_le[of "\<lambda>c. c \<noteq> CHR '',''" cs] by simp
  also have "\<dots> < length t" using t by simp
  also have "\<dots> \<le> length caps" unfolding t_def by (rule length_dropWhile_le)
  finally show "((rest, capability), (caps, capability))
      \<in> measure (\<lambda>(caps, capability). length caps)"
    by simp
qed simp

declare tokens_have.simps [simp del]

definition has_capabilities :: "string \<Rightarrow> string \<Rightarrow> bool" where
  "has_capabilities capabilities capability = tokens_have capabilities capability"

text \<open>The spec's reading of a capabilities string: tokens separated by commas.\<close>

fun comma_separated :: "string list \<Rightarrow> string" where
  "comma_separated [] = []"
| "comma_separated [t] = t"
| "comma_separated (t # ts) = t @ CHR '','' # comma_separated ts"

subsection \<open>Collaborators and program state\<close>

text \<open>
  Modelled from the spec: \<open>struct session\<close> is declared in a header that is missing; the
  spec gives a session a token, the private-key material and the server host name. The
  code reads \<open>token\<close> and writes \<open>server\<close>.
\<close>

record session =
  token :: string
  private_key :: string
  server :: "string option"

type_synonym key = string

text \<open>
  What is logged of a request: \<open>Post_v srv page as\<close> for
  \<open>http_post_lastpass_v(srv, page, NULL, NULL, as)\<close>, \<open>Post page sess vs\<close> for the
  variadic \<open>http_post_lastpass(page, sess, NULL, vs...)\<close>.
\<close>

datatype post = Post_v string string args | Post string "session option" "string option list"

datatype terminal_output = Waiting string bool | Dot | Reset

text \<open>
  The functions and constants the file uses and does not define are parameters. The
  transport, the prompt and the random source answer by the number of earlier calls, so
  that they may answer differently each time. \<open>uname\<close> gives the node name, the system
  name and the release, or \<open>None\<close> when the call fails.
\<close>

record env =
  LASTPASS_SERVER :: string
  http_post_lastpass_v :: "nat \<Rightarrow> string \<Rightarrow> string \<Rightarrow> args \<Rightarrow> string option"
  xml_ok_session :: "string \<Rightarrow> key \<Rightarrow> session option"
  xml_error_cause :: "string \<Rightarrow> string \<Rightarrow> string option"
  password_prompt :: "nat \<Rightarrow> string \<Rightarrow> string option \<Rightarrow> string \<Rightarrow> string option"
  range_rand :: "nat \<Rightarrow> nat \<Rightarrow> nat \<Rightarrow> nat"
  uname :: "(string \<times> string \<times> string) option"
  xstrlower :: "string \<Rightarrow> string"
  xultostr :: "int \<Rightarrow> string"

text \<open>
  The variables of \<open>lastpass_login\<close> that its callees reach through pointers
  (\<open>args\<close>, \<open>cause\<close>, \<open>*error_message\<close>, \<open>reply\<close>, \<open>session\<close>, \<open>login_server\<close>,
  \<open>otp_name\<close>), and the world: the configuration store, the requests sent, the numbers of
  prompts shown and of random numbers drawn, and what was written to the terminal.
\<close>

record state =
  args_v :: args
  cause_v :: "string option"
  message_v :: "string option"
  reply_v :: "string option"
  session_v :: "session option"
  login_server_v :: "string option"
  otp_name_v :: "string option"
  config :: "string \<Rightarrow> string option"
  posts :: "post list"
  prompts :: nat
  rands :: nat
  stderr :: "terminal_output list"

text \<open>
  Modelled from the spec: \<open>config_read_string\<close> and \<open>config_write_string\<close> (config.c is
  missing) read and write a persistent store of strings by key.
\<close>

definition config_read_string :: "state \<Rightarrow> string \<Rightarrow> string option" where
  "config_read_string s k = config s k"

definition config_write_string :: "state \<Rightarrow> string \<Rightarrow> string \<Rightarrow> state" where
  "config_write_string s k v = s\<lparr>config := (config s)(k \<mapsto> v)\<rparr>"

text \<open>
  Modelled from the spec: \<open>xstrappend\<close> (util.c is missing) appends a suffix to a heap
  string, a \<open>NULL\<close> string counting as empty.
\<close>

fun xstrappend :: "string option \<Rightarrow> string \<Rightarrow> string option" where
  "xstrappend None suffix = Some suffix"
| "xstrappend (Some str) suffix = Some (str @ suffix)"

subsection \<open>calculate_trust_id and calculate_trust_label\<close>

definition trust_alphabet :: string where
  "trust_alphabet = ''abcdefghijklmnopqrstuvwxyzABCDEFGHIJKLMNOPQRSTUVWXYZ1234567890!@#$''"

text \<open>The string literal in memory: its characters and the terminating NUL.\<close>

definition trust_literal :: string where
  "trust_literal = trust_alphabet @ [CHR 0x00]"

text \<open>
  The \<open>for\<close> loop, by the number of characters still to write; \<open>r\<close> counts the random
  numbers drawn so far. An index outside the literal is an out-of-bounds read.
\<close>

fun fill_trust_id :: "env \<Rightarrow> nat \<Rightarrow> nat \<Rightarrow> fatal + string" where
  "fill_trust_id E 0 r = Inr []"
| "fill_trust_id E (Suc k) r =
     (let j = range_rand E r 0 66 in
      if j < length trust_literal then
        (case fill_trust_id E k (Suc r) of
           Inl e \<Rightarrow> Inl e
         | Inr cs \<Rightarrow> Inr (trust_literal ! j # cs))
      else Inl OutOfBounds)"

definition calculate_trust_id :: "env \<Rightarrow> bool \<Rightarrow> state \<Rightarrow> fatal + (string option \<times> state)" where
  "calculate_trust_id E force s =
     (let trusted_id = config_read_string s ''trusted_id'' in
      if force \<and> trusted_id = None then
        (case fill_trust_id E 32 (rands s) of
           Inl e \<Rightarrow> Inl e
         | Inr buf \<Rightarrow>
             let tid = cstring buf in
             Inr (Some tid, config_write_string (s\<lparr>rands := rands s + 32\<rparr>) ''trusted_id'' tid))
      else Inr (trusted_id, s))"

definition calculate_trust_label :: "env \<Rightarrow> fatal + string" where
  "calculate_trust_label E =
     (case uname E of
        None \<Rightarrow> Inl (Die ''Failed to determine uname.'')
      | Some (nodename, sysname, release) \<Rightarrow>
          Inr (nodename @ '' - '' @ sysname @ '' '' @ release))"

subsection \<open>error_post, error_other, error_message\<close>

text \<open>\<open>msgp\<close> says that the caller's \<open>message\<close> pointer is not \<open>NULL\<close>. Each returns \<open>true\<close>.\<close>

definition error_post :: "bool \<Rightarrow> state \<Rightarrow> bool \<times> state" where
  "error_post msgp s =
     (True, s\<lparr>session_v := None,
              message_v := (if msgp then Some ''Unable to post login request.'' else message_v s)\<rparr>)"

definition error_other :: "bool \<Rightarrow> state \<Rightarrow> string \<Rightarrow> bool \<times> state" where
  "error_other msgp s txt =
     (True, s\<lparr>session_v := None, message_v := (if msgp then Some txt else message_v s)\<rparr>)"

definition error_message :: "env \<Rightarrow> bool \<Rightarrow> state \<Rightarrow> string \<Rightarrow> bool \<times> state" where
  "error_message E msgp s rep =
     (True, s\<lparr>session_v := None,
              message_v :=
                (if msgp then
                   (case xml_error_cause E rep ''message'' of
                      Some m \<Rightarrow> Some (filter_error_message m)
                    | None \<Rightarrow> Some ''Could not parse error message to login request.'')
                 else message_v s)\<rparr>)"

subsection \<open>ordinary_login\<close>

text \<open>One request to \<open>login.php\<close>: the reply is stored and the request logged.\<close>

definition post_login :: "env \<Rightarrow> string \<Rightarrow> state \<Rightarrow> state" where
  "post_login E srv s =
     s\<lparr>reply_v := http_post_lastpass_v E (length (posts s)) srv ''login.php'' (args_v s),
       posts := posts s @ [Post_v srv ''login.php'' (args_v s)]\<rparr>"

definition found_session :: "session \<Rightarrow> string \<Rightarrow> state \<Rightarrow> state" where
  "found_session sess srv s = s\<lparr>session_v := Some (sess\<lparr>server := Some srv\<rparr>)\<rparr>"

text \<open>The function calls itself on a redirection; \<open>None\<close> is a call that never returns.\<close>

partial_function (option) ordinary_login ::
  "env \<Rightarrow> string \<Rightarrow> key \<Rightarrow> bool \<Rightarrow> state \<Rightarrow> (bool \<times> state) option" where
  "ordinary_login E login_server ky msgp s =
     (let s1 = post_login E login_server s in
      case reply_v s1 of
        None \<Rightarrow> Some (error_post msgp s1)
      | Some rep \<Rightarrow>
          (case xml_ok_session E rep ky of
             Some sess \<Rightarrow> Some (True, found_session sess login_server s1)
           | None \<Rightarrow>
               let s2 = s1\<lparr>session_v := None\<rparr>;
                   srv = xml_error_cause E rep ''server''
               in if srv = Some ''lastpass.eu'' then ordinary_login E ''lastpass.eu'' ky msgp s2
                  else
                    let s3 = s2\<lparr>cause_v := xml_error_cause E rep ''cause''\<rparr> in
                    if cause_v s3 = None
                    then Some (error_other msgp s3 ''Unable to determine login failure cause.'')
                    else Some (False, s3\<lparr>login_server_v := Some login_server\<rparr>)))"

declare ordinary_login.simps [code]

text \<open>
  The reply to request \<open>j\<close> of an attempt, counted from 0, asks for a redirection: it holds
  no session and its \<open>server\<close> field is \<open>lastpass.eu\<close>. The first request goes to
  \<open>login_server\<close>, the later ones to \<open>lastpass.eu\<close>, all with the same arguments.
\<close>

definition redirects :: "env \<Rightarrow> key \<Rightarrow> string \<Rightarrow> state \<Rightarrow> nat \<Rightarrow> bool" where
  "redirects E ky login_server s j =
     (case http_post_lastpass_v E (length (posts s) + j)
             (if j = 0 then login_server else ''lastpass.eu'') ''login.php'' (args_v s) of
        None \<Rightarrow> False
      | Some rep \<Rightarrow>
          xml_ok_session E rep ky = None \<and> xml_error_cause E rep ''server'' = Some ''lastpass.eu'')"

text \<open>
  The session \<open>sess\<close> is the one found in the reply to the last request logged in \<open>s\<close>, a
  request to \<open>login.php\<close> on the server \<open>srv\<close>, with \<open>srv\<close> stored as its server.
\<close>

definition session_from_request :: "env \<Rightarrow> key \<Rightarrow> string \<Rightarrow> state \<Rightarrow> session \<Rightarrow> bool" where
  "session_from_request E ky srv s sess =
     (case rev (posts s) of
        Post_v srv' page as # earlier \<Rightarrow>
          srv' = srv \<and> page = ''login.php'' \<and>
          (case http_post_lastpass_v E (length earlier) srv page as of
             None \<Rightarrow> False
           | Some rep \<Rightarrow>
               (case xml_ok_session E rep ky of
                  None \<Rightarrow> False
                | Some sess0 \<Rightarrow> sess = sess0\<lparr>server := Some srv\<rparr>))
      | _ \<Rightarrow> False)"

subsection \<open>oob_login\<close>

text \<open>
  The polling loop. \<open>Inl\<close> is an access outside the argument vector; the result \<open>False\<close> is
  the jump to \<open>failure\<close>, \<open>True\<close> the jump to \<open>success\<close>. \<open>cause\<close> and \<open>retryid\<close> are local
  to \<open>oob_login\<close> and are read only in the iteration that sets them.
\<close>

partial_function (option) oob_poll ::
  "env \<Rightarrow> string \<Rightarrow> key \<Rightarrow> bool \<Rightarrow> bool \<Rightarrow> state \<Rightarrow> (fatal + bool \<times> state) option" where
  "oob_poll E login_server ky msgp can_do_passcode s =
     (let s1 = post_login E login_server s in
      case reply_v s1 of
        None \<Rightarrow>
          if can_do_passcode then
            (case append_post (args_v s1) ''outofbandrequest'' (Some ''0'') of
               Inl e \<Rightarrow> Some (Inl e)
             | Inr a1 \<Rightarrow>
             (case append_post a1 ''outofbandretry'' (Some ''0'') of
               Inl e \<Rightarrow> Some (Inl e)
             | Inr a2 \<Rightarrow>
             (case append_post a2 ''outofbandretryid'' (Some []) of
               Inl e \<Rightarrow> Some (Inl e)
             | Inr a3 \<Rightarrow>
                 Some (Inr (False,
                   s1\<lparr>args_v := a3, otp_name_v := xstrappend (otp_name_v s1) '' OTP''\<rparr>)))))
          else Some (Inr (error_post msgp s1))
      | Some rep \<Rightarrow>
          (case xml_ok_session E rep ky of
             Some sess \<Rightarrow> Some (Inr (True, found_session sess login_server s1))
           | None \<Rightarrow>
               let s2 = s1\<lparr>session_v := None\<rparr> in
               if xml_error_cause E rep ''cause'' = Some ''outofbandrequired'' then
                 (case append_post (args_v s2) ''outofbandretry'' (Some ''1'') of
                    Inl e \<Rightarrow> Some (Inl e)
                  | Inr a1 \<Rightarrow>
                  (case append_post a1 ''outofbandretryid'' (xml_error_cause E rep ''retryid'') of
                    Inl e \<Rightarrow> Some (Inl e)
                  | Inr a2 \<Rightarrow>
                      oob_poll E login_server ky msgp can_do_passcode
                        (s2\<lparr>args_v := a2, stderr := stderr s2 @ [Dot]\<rparr>)))
               else Some (Inr (error_message E msgp s2 rep))))"

declare oob_poll.simps [code]

text \<open>The code at the label \<open>out\<close>.\<close>

definition oob_out :: "bool \<times> state \<Rightarrow> bool \<times> state" where
  "oob_out r = (fst r, (snd r)\<lparr>stderr := stderr (snd r) @ [Reset]\<rparr>)"

text \<open>
  \<open>*oob_name\<close> is the caller's \<open>otp_name\<close>. Reading a field of a \<open>NULL\<close> reply is a null
  dereference; \<open>lastpass_login\<close> never calls with one.
\<close>

definition oob_login ::
  "env \<Rightarrow> string \<Rightarrow> key \<Rightarrow> bool \<Rightarrow> state \<Rightarrow> (fatal + bool \<times> state) option" where
  "oob_login E login_server ky msgp s =
     (case reply_v s of
        None \<Rightarrow> Some (Inl NullDeref)
      | Some rep \<Rightarrow>
          let s1 = s\<lparr>otp_name_v := xml_error_cause E rep ''outofbandname''\<rparr> in
          (case xml_error_cause E rep ''capabilities'' of
             None \<Rightarrow> Some (Inr (error_other msgp s1 ''Could not determine out-of-band type.''))
           | Some oob_capabilities \<Rightarrow>
          (case otp_name_v s1 of
             None \<Rightarrow> Some (Inr (error_other msgp s1 ''Could not determine out-of-band type.''))
           | Some oob_name \<Rightarrow>
               let can_do_passcode = has_capabilities oob_capabilities ''passcode'' in
               if can_do_passcode \<and> \<not> has_capabilities oob_capabilities ''outofband'' then
                 Some (Inr (oob_out (False, s1\<lparr>otp_name_v := xstrappend (otp_name_v s1) '' OTP''\<rparr>)))
               else
                 (case append_post (args_v s1) ''outofbandrequest'' (Some ''1'') of
                    Inl e \<Rightarrow> Some (Inl e)
                  | Inr a \<Rightarrow>
                      map_option (map_sum id oob_out)
                        (oob_poll E login_server ky msgp can_do_passcode
                           (s1\<lparr>args_v := a,
                               stderr := stderr s1 @ [Waiting oob_name can_do_passcode]\<rparr>))))))"

subsection \<open>otp_login\<close>

text \<open>
  The prompt loop for the table entry \<open>m\<close>; \<open>multifactor_error\<close> is the note shown with the
  prompt. The prompt text is \<open>"Please enter your %s for <%s>."\<close> with the name and the user.
\<close>

partial_function (option) otp_loop ::
  "env \<Rightarrow> string \<Rightarrow> key \<Rightarrow> bool \<Rightarrow> multifactor_type \<Rightarrow> string \<Rightarrow> string option \<Rightarrow> state
     \<Rightarrow> (fatal + bool \<times> state) option" where
  "otp_loop E login_server ky msgp m username multifactor_error s =
     (let descr = ''Please enter your '' @ (case otp_name_v s of Some n \<Rightarrow> n | None \<Rightarrow> name m)
                    @ '' for <'' @ username @ ''>.'';
          multifactor = password_prompt E (prompts s) ''Code'' multifactor_error descr;
          s1 = s\<lparr>prompts := Suc (prompts s)\<rparr>
      in case multifactor of
           None \<Rightarrow> Some (Inr (error_other msgp s1 ''Aborted multifactor authentication.''))
         | Some code \<Rightarrow>
             (case append_post (args_v s1) (post_var m) (Some code) of
                Inl e \<Rightarrow> Some (Inl e)
              | Inr a \<Rightarrow>
                  let s2 = post_login E login_server (s1\<lparr>args_v := a\<rparr>) in
                  (case reply_v s2 of
                     None \<Rightarrow> Some (Inr (error_post msgp s2))
                   | Some rep \<Rightarrow>
                       (case xml_ok_session E rep ky of
                          Some sess \<Rightarrow> Some (Inr (True, found_session sess login_server s2))
                        | None \<Rightarrow>
                            let s3 = s2\<lparr>session_v := None\<rparr> in
                            if xml_error_cause E rep ''cause'' = Some (error_failure_str m)
                            then otp_loop E login_server ky msgp m username
                                   (Some ''Invalid multifactor code; please try again.'') s3
                            else Some (Inr (error_message E msgp s3 rep))))))"

declare otp_loop.simps [code]

text \<open>\<open>otp_name\<close> is read from the state. \<open>error_message\<close> on a \<open>NULL\<close> reply is a null
  dereference; \<open>lastpass_login\<close> never calls with one and an unknown cause.\<close>

definition otp_login ::
  "env \<Rightarrow> string \<Rightarrow> key \<Rightarrow> bool \<Rightarrow> string \<Rightarrow> string \<Rightarrow> state \<Rightarrow> (fatal + bool \<times> state) option" where
  "otp_login E login_server ky msgp cause username s =
     (case find_multifactor multifactor_types cause of
        None \<Rightarrow>
          (case reply_v s of
             None \<Rightarrow> Some (Inl NullDeref)
           | Some rep \<Rightarrow> Some (Inr (error_message E msgp s rep)))
      | Some replied_multifactor \<Rightarrow>
          otp_loop E login_server ky msgp replied_multifactor username None s)"

subsection \<open>lastpass_login\<close>

fun append_posts :: "args \<Rightarrow> (string \<times> string option) list \<Rightarrow> fatal + args" where
  "append_posts as [] = Inr as"
| "append_posts as ((n, v) # nvs) =
     (case append_post as n v of Inl e \<Rightarrow> Inl e | Inr as' \<Rightarrow> append_posts as' nvs)"

text \<open>The fields of the first request, in the order of the calls of \<open>append_post\<close>.\<close>

definition login_fields ::
  "env \<Rightarrow> string \<Rightarrow> string option \<Rightarrow> string \<Rightarrow> int \<Rightarrow> string option
     \<Rightarrow> (string \<times> string option) list" where
  "login_fields E username fragment hash iterations trusted_id =
     [(''xml'', Some ''2''),
      (''username'', Some (xstrlower E username)),
      (''hash'', Some hash),
      (''iterations'', Some (xultostr E iterations)),
      (''includeprivatekeyenc'', Some ''1''),
      (''method'', Some ''cli''),
      (''outofbandsupported'', Some ''1'')]
     @ (case fragment of
          None \<Rightarrow> []
        | Some f \<Rightarrow> [(''alpfragmentid'', Some f), (''calculatedfragmentid'', Some f)])
     @ (case trusted_id of None \<Rightarrow> [] | Some t \<Rightarrow> [(''uuid'', Some t)])"

text \<open>
  Up to the first request: the locals are cleared, the trust id is read or made, and the
  argument vector of 33 slots is filled.
\<close>

definition login_start ::
  "env \<Rightarrow> string \<Rightarrow> string option \<Rightarrow> string \<Rightarrow> int \<Rightarrow> bool \<Rightarrow> state
     \<Rightarrow> fatal + (string option \<times> state)" where
  "login_start E username fragment hash iterations trust s0 =
     (let s = s0\<lparr>args_v := replicate 33 None, cause_v := None, reply_v := None,
                 session_v := None, login_server_v := None, otp_name_v := None\<rparr> in
      case calculate_trust_id E trust s of
        Inl e \<Rightarrow> Inl e
      | Inr (trusted_id, s1) \<Rightarrow>
          (case append_posts (args_v s1)
                  (login_fields E username fragment hash iterations trusted_id) of
             Inl e \<Rightarrow> Inl e
           | Inr a \<Rightarrow> Inr (trusted_id, s1\<lparr>args_v := a\<rparr>)))"

text \<open>The call of \<open>otp_login\<close> and the last two lines of \<open>lastpass_login\<close>.\<close>

definition login_otp ::
  "env \<Rightarrow> string \<Rightarrow> key \<Rightarrow> bool \<Rightarrow> string \<Rightarrow> state \<Rightarrow> (fatal + state) option" where
  "login_otp E login_server ky msgp user_lower s =
     (case cause_v s of
        None \<Rightarrow> Some (Inl NullDeref)
      | Some cause \<Rightarrow>
          (case otp_login E login_server ky msgp cause user_lower s of
             None \<Rightarrow> None
           | Some (Inl e) \<Rightarrow> Some (Inl e)
           | Some (Inr r) \<Rightarrow>
               if fst r then Some (Inr (snd r))
               else Some (Inr (snd (error_other msgp (snd r) ''An unspecified error occurred.'')))))"

text \<open>
  After \<open>ordinary_login\<close> has returned \<open>false\<close>. \<open>session->token\<close> is read for the request
  to \<open>trust.php\<close> whenever \<open>oob_login\<close> returned \<open>true\<close> and trust was asked for.
\<close>

definition login_multifactor ::
  "env \<Rightarrow> key \<Rightarrow> bool \<Rightarrow> bool \<Rightarrow> string \<Rightarrow> string option \<Rightarrow> state \<Rightarrow> (fatal + state) option" where
  "login_multifactor E ky msgp trust user_lower trusted_id s =
     (case (if trust then map_sum id Some (calculate_trust_label E) else Inr None) of
        Inl e \<Rightarrow> Some (Inl e)
      | Inr trusted_label \<Rightarrow>
     (case (if trust then append_post (args_v s) ''trustlabel'' trusted_label
            else Inr (args_v s)) of
        Inl e \<Rightarrow> Some (Inl e)
      | Inr a \<Rightarrow>
     (case login_server_v s of
        None \<Rightarrow> Some (Inl NullDeref)
      | Some login_server \<Rightarrow>
          let s1 = s\<lparr>args_v := a\<rparr> in
          if cause_v s1 = Some ''outofbandrequired'' then
            (case oob_login E login_server ky msgp s1 of
               None \<Rightarrow> None
             | Some (Inl e) \<Rightarrow> Some (Inl e)
             | Some (Inr r) \<Rightarrow>
                 if fst r then
                   (if trust then
                      (case session_v (snd r) of
                         None \<Rightarrow> Some (Inl NullDeref)
                       | Some sess \<Rightarrow>
                           Some (Inr ((snd r)\<lparr>posts := posts (snd r) @
                             [Post ''trust.php'' (Some sess)
                                [Some ''token'', Some (token sess), Some ''uuid'', trusted_id,
                                 Some ''trustlabel'', trusted_label]]\<rparr>)))
                    else Some (Inr (snd r)))
                 else login_otp E login_server ky msgp user_lower (snd r))
          else login_otp E login_server ky msgp user_lower s1)))"

text \<open>
  The whole function. The result state holds what the caller gets: \<open>session_v\<close> is the
  returned pointer, \<open>message_v\<close> is \<open>*error_message\<close>. \<open>None\<close> is a call that never returns,
  \<open>Inl\<close> one that ends the process.
\<close>

definition lastpass_login ::
  "env \<Rightarrow> string \<Rightarrow> string option \<Rightarrow> string \<Rightarrow> key \<Rightarrow> int \<Rightarrow> bool \<Rightarrow> bool \<Rightarrow> state
     \<Rightarrow> (fatal + state) option" where
  "lastpass_login E username fragment hash ky iterations msgp trust s0 =
     (case login_start E username fragment hash iterations trust s0 of
        Inl e \<Rightarrow> Some (Inl e)
      | Inr (trusted_id, s) \<Rightarrow>
          (case ordinary_login E (LASTPASS_SERVER E) ky msgp s of
             None \<Rightarrow> None
           | Some r \<Rightarrow>
               if fst r then Some (Inr (snd r))
               else login_multifactor E ky msgp trust (xstrlower E username) trusted_id (snd r)))"

subsection \<open>Scenarios\<close>

text \<open>
  Concrete collaborators for running the model. Replies are short tags; \<open>toy_error_cause\<close>
  lists the fields of the error record each tag stands for, \<open>toy_ok_session\<close> finds a
  session in the reply \<open>ok\<close> only.
\<close>

definition toy_error_cause :: "string \<Rightarrow> string \<Rightarrow> string option" where
  "toy_error_cause rep field =
     map_of
       [((''redirect'', ''server''), ''lastpass.eu''),
        ((''oob-unnamed'', ''cause''), ''outofbandrequired''),
        ((''oob-unnamed'', ''capabilities''), ''outofband''),
        ((''oob-both'', ''cause''), ''outofbandrequired''),
        ((''oob-both'', ''outofbandname''), ''Duo Push''),
        ((''oob-both'', ''capabilities''), ''passcode,outofband''),
        ((''oob-push'', ''cause''), ''outofbandrequired''),
        ((''oob-push'', ''outofbandname''), ''Duo Push''),
        ((''oob-push'', ''capabilities''), ''outofband''),
        ((''google'', ''cause''), ''googleauthrequired''),
        ((''oob-passcode'', ''cause''), ''outofbandrequired''),
        ((''oob-passcode'', ''outofbandname''), ''Duo Push''),
        ((''oob-passcode'', ''capabilities''), ''passcode''),
        ((''rejected'', ''cause''), ''unknownemail''),
        ((''rejected'', ''message''),
           ''Code needed. Upgrade your browser extension so you can enter it. Bye.'')]
       (rep, field)"

definition toy_session :: session where
  "toy_session = \<lparr>token = ''tok'', private_key = ''priv'', server = None\<rparr>"

definition toy_ok_session :: "string \<Rightarrow> key \<Rightarrow> session option" where
  "toy_ok_session rep ky = (if rep = ''ok'' then Some toy_session else None)"

definition toy_env :: "(nat \<Rightarrow> string \<Rightarrow> string \<Rightarrow> args \<Rightarrow> string option) \<Rightarrow> nat \<Rightarrow> env" where
  "toy_env http rnd =
     \<lparr>LASTPASS_SERVER = ''lastpass.com'',
      http_post_lastpass_v = http,
      xml_ok_session = toy_ok_session,
      xml_error_cause = toy_error_cause,
      password_prompt = (\<lambda>n prompt err descr. None),
      range_rand = (\<lambda>n lo hi. rnd),
      uname = Some (''host'', ''Linux'', ''6.1''),
      xstrlower = (\<lambda>u. u),
      xultostr = (\<lambda>i. ''100100'')\<rparr>"

text \<open>The same, with a user who types the code \<open>123456\<close> at every prompt.\<close>

definition toy_env_code :: "(nat \<Rightarrow> string \<Rightarrow> string \<Rightarrow> args \<Rightarrow> string option) \<Rightarrow> env" where
  "toy_env_code http = (toy_env http 0)\<lparr>password_prompt := (\<lambda>n prompt err descr. Some ''123456'')\<rparr>"

text \<open>A server that answers every request with the same reply, and one that is down.\<close>

definition always :: "string \<Rightarrow> nat \<Rightarrow> string \<Rightarrow> string \<Rightarrow> args \<Rightarrow> string option" where
  "always rep n srv page as = Some rep"

definition down :: "nat \<Rightarrow> string \<Rightarrow> string \<Rightarrow> args \<Rightarrow> string option" where
  "down n srv page as = None"

text \<open>The primary server redirects, the alternate one accepts the login.\<close>

definition redirect_then_ok :: "nat \<Rightarrow> string \<Rightarrow> string \<Rightarrow> args \<Rightarrow> string option" where
  "redirect_then_ok n srv page as = (if srv = ''lastpass.eu'' then Some ''ok'' else Some ''redirect'')"

text \<open>The first request gets the reply \<open>rep\<close>, every later one gets none, or gets \<open>ok\<close>.\<close>

definition first_then_down :: "string \<Rightarrow> nat \<Rightarrow> string \<Rightarrow> string \<Rightarrow> args \<Rightarrow> string option" where
  "first_then_down rep n srv page as = (if n = 0 then Some rep else None)"

definition first_then_ok :: "string \<Rightarrow> nat \<Rightarrow> string \<Rightarrow> string \<Rightarrow> args \<Rightarrow> string option" where
  "first_then_ok rep n srv page as = (if n = 0 then Some rep else Some ''ok'')"

text \<open>The first \<open>k\<close> requests are told that out-of-band approval is pending, the next is accepted.\<close>

definition pending_then_ok :: "nat \<Rightarrow> nat \<Rightarrow> string \<Rightarrow> string \<Rightarrow> args \<Rightarrow> string option" where
  "pending_then_ok k n srv page as = (if n < k then Some ''oob-push'' else Some ''ok'')"

definition state0 :: state where
  "state0 =
     \<lparr>args_v = replicate 33 None, cause_v = None, message_v = None, reply_v = None,
      session_v = None, login_server_v = None, otp_name_v = None,
      config = (\<lambda>k. None), posts = [], prompts = 0, rands = 0, stderr = []\<rparr>"

section \<open>Properties\<close>

subsection \<open>The argument vector\<close>

lemma fields_vector_simps:
  "fields_vector [] = []"
  "fields_vector ((n, v) # nvs) = Some n # v # fields_vector nvs"
  "fields_vector (xs @ ys) = fields_vector xs @ fields_vector ys"
  "length (fields_vector nvs) = 2 * length nvs"
  by (induction nvs) (auto simp add: fields_vector_def)

lemma post_pairs_fields_vector: "post_pairs (fields_vector nvs @ replicate k None) = nvs"
proof (induction nvs)
  case Nil
  show ?case by (cases k) (simp_all add: fields_vector_simps)
next
  case (Cons nv nvs)
  then show ?case by (cases nv) (simp add: fields_vector_simps)
qed

lemma scan_args_fields_vector:
  assumes "nam \<notin> fst ` set pre" "Some nam \<notin> snd ` set pre" "None \<notin> snd ` set pre"
    and "x = None \<or> x = Some nam"
  shows "scan_args (fields_vector pre @ x # rest) nam = 2 * length pre"
  using assms
proof (induction pre)
  case Nil
  then show ?case by (auto simp add: fields_vector_simps)
next
  case (Cons nv pre)
  obtain n v where nv: "nv = (n, v)" by (cases nv)
  with Cons.prems obtain w where "v = Some w" "w \<noteq> nam" "n \<noteq> nam" by (cases v) auto
  with Cons nv show ?case by (simp add: fields_vector_simps)
qed

text \<open>
  As long as the name being set is not among the stored values and no stored value is
  \<open>NULL\<close>, \<open>append_post\<close> appends a new name and replaces the value of a present one in
  place.
\<close>

lemma append_post_new_field:
  assumes "nam \<notin> fst ` set nvs" "Some nam \<notin> snd ` set nvs" "None \<notin> snd ` set nvs"
    and "2 \<le> k"
  shows "append_post (fields_vector nvs @ replicate k None) nam val
           = Inr (fields_vector (nvs @ [(nam, val)]) @ replicate (k - 2) None)"
proof -
  from assms(4) obtain k' where k: "k = Suc (Suc k')" by (metis add_2_eq_Suc le_Suc_ex)
  have s: "scan_args (fields_vector nvs @ replicate k None) nam = 2 * length nvs"
    using scan_args_fields_vector[OF assms(1-3), where x = None and rest = "replicate (Suc k') None"]
    by (simp add: k)
  show ?thesis
    unfolding append_post_def s Let_def
    by (simp add: k fields_vector_simps list_update_append)
qed

lemma append_post_present_field:
  assumes "nam \<notin> fst ` set pre" "Some nam \<notin> snd ` set pre" "None \<notin> snd ` set pre"
  shows "append_post (fields_vector (pre @ (nam, old) # post) @ replicate k None) nam val
           = Inr (fields_vector (pre @ (nam, val) # post) @ replicate k None)"
proof -
  have s: "scan_args (fields_vector (pre @ (nam, old) # post) @ replicate k None) nam
             = 2 * length pre"
    using scan_args_fields_vector[OF assms, where x = "Some nam"
        and rest = "old # fields_vector post @ replicate k None"]
    by (simp add: fields_vector_simps)
  show ?thesis
    unfolding append_post_def s Let_def
    by (simp add: fields_vector_simps list_update_append)
qed

text \<open>
  C4. Setting a name that is present replaces its value in place, setting a new name appends
  it, the other entries keep their order: not so when the new name is also a stored value.
  In the set holding \<open>xml = 2\<close> and \<open>username = hash\<close>, setting \<open>hash\<close> stops at the value of
  \<open>username\<close>: the vector then reads \<open>xml = 2\<close>, \<open>username = hash\<close>, and a name \<open>abc123\<close>
  without a value; no field \<open>hash\<close> has been appended.
\<close>

theorem append_post_stops_at_value:
  "append_post ([Some ''xml'', Some ''2'', Some ''username'', Some ''hash''] @ replicate 29 None)
       ''hash'' (Some ''abc123'')
     = Inr ([Some ''xml'', Some ''2'', Some ''username'', Some ''hash'', Some ''abc123'']
            @ replicate 28 None)
   \<and> post_pairs ([Some ''xml'', Some ''2'', Some ''username'', Some ''hash'', Some ''abc123'']
            @ replicate 28 None)
     = [(''xml'', Some ''2''), (''username'', Some ''hash''), (''abc123'', None)]"
  by code_simp

subsection \<open>Server messages\<close>

lemma strstr_Some:
  "strstr h n = Some i \<Longrightarrow>
     take (length n) (drop i h) = n \<and> i + length n \<le> length h \<and>
     (\<forall>j<i. take (length n) (drop j h) \<noteq> n)"
proof (induction h arbitrary: i)
  case Nil
  then show ?case by (simp split: if_splits)
next
  case (Cons c cs)
  show ?case
  proof (cases "take (length n) (c # cs) = n")
    case True
    with Cons.prems have "i = 0" by simp
    moreover have "length n \<le> length (c # cs)"
    proof -
      have "length (take (length n) (c # cs)) = length n" by (simp only: True)
      then show ?thesis by (simp only: length_take min_def split: if_splits)
    qed
    ultimately show ?thesis using True by simp
  next
    case False
    with Cons.prems obtain i' where i': "strstr cs n = Some i'" "i = Suc i'" by auto
    from Cons.IH[OF i'(1)] False i'(2) show ?thesis
      by (auto simp: less_Suc_eq_0_disj)
  qed
qed

lemma strstr_None:
  "strstr h n = None \<Longrightarrow> h \<noteq> pre @ n @ post"
proof (induction h arbitrary: pre)
  case Nil
  then show ?case by (simp split: if_splits)
next
  case (Cons c cs)
  from Cons.prems have ne: "take (length n) (c # cs) \<noteq> n" and r: "strstr cs n = None"
    by (auto split: if_splits)
  show ?case
  proof (cases pre)
    case Nil
    with ne show ?thesis by auto
  next
    case (Cons p ps)
    with Cons.IH[OF r, of ps] show ?thesis by auto
  qed
qed

lemma filter_error_message_cut:
  assumes "m = pre @ upgrade_notice @ post"
  shows "(\<exists>post'. m = filter_error_message m @ upgrade_notice @ post')
         \<and> length (filter_error_message m) \<le> length pre"
proof -
  obtain i where i: "strstr m upgrade_notice = Some i"
    using strstr_None[of m upgrade_notice pre post] assms by (cases "strstr m upgrade_notice") auto
  note S = strstr_Some[OF i]
  have f: "filter_error_message m = take i m" by (simp add: filter_error_message_def i)
  have "m = take i m @ take (length upgrade_notice) (drop i m) @ drop (length upgrade_notice) (drop i m)"
    by (metis append_take_drop_id)
  with S f have 1: "\<exists>post'. m = filter_error_message m @ upgrade_notice @ post'" by metis
  have "take (length upgrade_notice) (drop (length pre) m) = upgrade_notice"
    using assms by simp
  with S have "\<not> length pre < i" by blast
  with f have "length (filter_error_message m) \<le> length pre" by simp
  with 1 show ?thesis by simp
qed

lemma filter_error_message_same:
  assumes "\<not> (\<exists>pre post. m = pre @ upgrade_notice @ post)"
  shows "filter_error_message m = m"
proof (cases "strstr m upgrade_notice")
  case None
  then show ?thesis by (simp add: filter_error_message_def)
next
  case (Some i)
  note S = strstr_Some[OF Some]
  have "m = take i m @ take (length upgrade_notice) (drop i m) @ drop (length upgrade_notice) (drop i m)"
    by (metis append_take_drop_id)
  with S assms show ?thesis by metis
qed

text \<open>
  C10. A server message that is surfaced is filtered first: when it contains the notice
  \<open>" Upgrade your browser extension so you can enter it."\<close>, the notice (its first
  occurrence) and all that follows are removed, and a message without it is kept as it is.
  When the reply has no \<open>message\<close> field, the message is the fixed text
  \<open>"Could not parse error message to login request."\<close>. No session is returned.
\<close>

theorem error_message_filtered:
  assumes "msgp"
  shows "session_v (snd (error_message E msgp s rep)) = None
    \<and> (xml_error_cause E rep ''message'' = None \<longrightarrow>
         message_v (snd (error_message E msgp s rep))
           = Some ''Could not parse error message to login request.'')
    \<and> (\<forall>m. xml_error_cause E rep ''message'' = Some m \<longrightarrow>
         message_v (snd (error_message E msgp s rep)) = Some (filter_error_message m)
         \<and> (\<forall>pre post. m = pre @ upgrade_notice @ post \<longrightarrow>
              (\<exists>post'. m = filter_error_message m @ upgrade_notice @ post')
              \<and> length (filter_error_message m) \<le> length pre)
         \<and> ((\<nexists>pre post. m = pre @ upgrade_notice @ post) \<longrightarrow> filter_error_message m = m))"
  using assms filter_error_message_cut filter_error_message_same
  by (simp add: error_message_def)

theorem error_message_filtered_witness:
  "message_v (snd (error_message (toy_env down 0) True state0 ''rejected'')) = Some ''Code needed.''
   \<and> message_v (snd (error_message (toy_env down 0) True state0 ''ok''))
       = Some ''Could not parse error message to login request.''"
proof -
  let ?m = "''Code needed. Upgrade your browser extension so you can enter it. Bye.''"
  have m: "xml_error_cause (toy_env down 0) ''rejected'' ''message'' = Some ?m"
    by (simp add: toy_env_def toy_error_cause_def)
  have n: "xml_error_cause (toy_env down 0) ''ok'' ''message'' = None"
    by (simp add: toy_env_def toy_error_cause_def)
  have f: "filter_error_message ?m = ''Code needed.''"
    by code_simp
  have t: True by simp
  note A = error_message_filtered[OF t, of "toy_env down 0" state0 "''rejected''"]
  note B = error_message_filtered[OF t, of "toy_env down 0" state0 "''ok''"]
  from A m have "message_v (snd (error_message (toy_env down 0) True state0 ''rejected''))
        = Some (filter_error_message ?m)"
    by blast
  moreover from B n have "message_v (snd (error_message (toy_env down 0) True state0 ''ok''))
       = Some ''Could not parse error message to login request.''"
    by blast
  ultimately show ?thesis by (simp only: f)
qed

subsection \<open>The multifactor table\<close>

lemma find_multifactor_None:
  "find_multifactor ms c = None \<longleftrightarrow> c \<notin> error_str ` set ms"
  by (induction ms) auto

text \<open>
  C7. The cause \<open>googleauthrequired\<close> finds the Google Authenticator entry, whose code is
  posted as \<open>otp\<close>; \<open>sesameotprequired\<close> finds the entry posted as \<open>sesameotp\<close>. A cause
  that is the \<open>error_str\<close> of no entry finds nothing: \<open>otp_login\<close> then returns at once,
  without a prompt and without a request (the state is otherwise unchanged), with no session
  and with the server's message, filtered, as the error.
\<close>

theorem multifactor_lookup:
  assumes "cause \<notin> error_str ` set multifactor_types"
      and "reply_v s = Some rep"
      and "msgp"
  shows "(\<exists>m. find_multifactor multifactor_types ''googleauthrequired'' = Some m
            \<and> name m = ''Google Authenticator Code'' \<and> post_var m = ''otp'')
       \<and> (\<exists>m. find_multifactor multifactor_types ''sesameotprequired'' = Some m
            \<and> name m = ''Sesame OTP'' \<and> post_var m = ''sesameotp'')
       \<and> find_multifactor multifactor_types cause = None
       \<and> otp_login E login_server ky msgp cause username s
           = Some (Inr (True, s\<lparr>session_v := None,
                message_v := Some (case xml_error_cause E rep ''message'' of
                                     Some m \<Rightarrow> filter_error_message m
                                   | None \<Rightarrow> ''Could not parse error message to login request.'')\<rparr>))"
proof -
  have n: "find_multifactor multifactor_types cause = None"
    using assms(1) by (simp add: find_multifactor_None)
  have "otp_login E login_server ky msgp cause username s = Some (Inr (error_message E msgp s rep))"
    by (simp add: otp_login_def n assms(2))
  moreover have "error_message E msgp s rep = (True, s\<lparr>session_v := None,
                message_v := Some (case xml_error_cause E rep ''message'' of
                                     Some m \<Rightarrow> filter_error_message m
                                   | None \<Rightarrow> ''Could not parse error message to login request.'')\<rparr>)"
    using assms(3) by (simp add: error_message_def split: option.splits)
  moreover have "\<exists>m. find_multifactor multifactor_types ''googleauthrequired'' = Some m
            \<and> name m = ''Google Authenticator Code'' \<and> post_var m = ''otp''"
    by (simp add: multifactor_types_def)
  moreover have "\<exists>m. find_multifactor multifactor_types ''sesameotprequired'' = Some m
            \<and> name m = ''Sesame OTP'' \<and> post_var m = ''sesameotp''"
    by (simp add: multifactor_types_def)
  ultimately show ?thesis using n by simp
qed

theorem multifactor_lookup_witness:
  "''unknownemail'' \<notin> error_str ` set multifactor_types
   \<and> otp_login (toy_env down 0) ''lastpass.com'' ''key'' True ''unknownemail'' ''user''
        (state0\<lparr>reply_v := Some ''rejected''\<rparr>)
      = Some (Inr (True, state0\<lparr>reply_v := Some ''rejected'', session_v := None,
                message_v := Some ''Code needed.''\<rparr>))"
proof -
  let ?m = "''Code needed. Upgrade your browser extension so you can enter it. Bye.''"
  have c: "''unknownemail'' \<notin> error_str ` set multifactor_types"
    by (simp add: multifactor_types_def)
  have r: "reply_v (state0\<lparr>reply_v := Some ''rejected''\<rparr>) = Some ''rejected''" by simp
  have m: "xml_error_cause (toy_env down 0) ''rejected'' ''message'' = Some ?m"
    by (simp add: toy_env_def toy_error_cause_def)
  have f: "filter_error_message ?m = ''Code needed.''"
    by code_simp
  have t: True by simp
  from multifactor_lookup[OF c r t, of "toy_env down 0" "''lastpass.com''" "''key''" "''user''"]
  have "otp_login (toy_env down 0) ''lastpass.com'' ''key'' True ''unknownemail'' ''user''
        (state0\<lparr>reply_v := Some ''rejected''\<rparr>)
      = Some (Inr (True, state0\<lparr>reply_v := Some ''rejected'', session_v := None,
                message_v := Some (filter_error_message ?m)\<rparr>))"
    by (simp only: m option.case)
  with c show ?thesis by (simp only: f simp_thms)
qed

subsection \<open>Out-of-band capabilities\<close>

lemma strtok_comma: "strtok (CHR '','' # rest) CHR '','' = strtok rest CHR '',''"
  by (simp add: strtok_def)

lemma strtok_empty: "strtok [] d = None"
  by (simp add: strtok_def)

lemma strtok_last:
  assumes "d \<notin> set t" "t \<noteq> []"
  shows "strtok t d = Some (t, [])"
proof -
  from assms obtain x xs where t: "t = x # xs" "x \<noteq> d" by (cases t) auto
  have 1: "dropWhile (\<lambda>c. c = d) t = t" using t by simp
  have 2: "takeWhile (\<lambda>c. c \<noteq> d) t = t" using assms(1) by (auto simp add: takeWhile_eq_all_conv)
  have 3: "dropWhile (\<lambda>c. c \<noteq> d) t = []" using assms(1) by (auto simp add: dropWhile_eq_Nil_conv)
  show ?thesis unfolding strtok_def 1 using 2 3 t(1) by simp
qed

lemma strtok_token:
  assumes "d \<notin> set t" "t \<noteq> []"
  shows "strtok (t @ d # rest) d = Some (t, rest)"
proof -
  from assms obtain x xs where t: "t = x # xs" "x \<noteq> d" by (cases t) auto
  have 1: "dropWhile (\<lambda>c. c = d) (t @ d # rest) = t @ d # rest" using t by simp
  have 2: "takeWhile (\<lambda>c. c \<noteq> d) (t @ d # rest) = t"
    using assms(1) by (auto simp add: takeWhile_tail takeWhile_eq_all_conv)
  have 3: "dropWhile (\<lambda>c. c \<noteq> d) (t @ d # rest) = d # rest"
    using assms(1) by (auto simp add: dropWhile_append3 dropWhile_append)
  show ?thesis unfolding strtok_def 1 using 2 3 t(1) by simp
qed

lemma tokens_have_comma_separated:
  assumes "\<forall>t\<in>set ts. CHR '','' \<notin> set t" "c \<noteq> []"
  shows "tokens_have (comma_separated ts) c \<longleftrightarrow> c \<in> set ts"
  using assms(1)
proof (induction ts rule: comma_separated.induct)
  case 1
  show ?case by (subst tokens_have.simps) (simp add: strtok_empty)
next
  case (2 t)
  show ?case
  proof (cases "t = []")
    case True
    then show ?thesis using assms(2) by (subst tokens_have.simps) (auto simp add: strtok_empty)
  next
    case False
    with 2 have "strtok t CHR '','' = Some (t, [])" by (simp add: strtok_last)
    then show ?thesis
      by (subst tokens_have.simps, simp, subst tokens_have.simps) (auto simp add: strtok_empty)
  qed
next
  case (3 t u us)
  then have IH: "tokens_have (comma_separated (u # us)) c \<longleftrightarrow> c \<in> set (u # us)" by simp
  show ?case
  proof (cases "t = []")
    case True
    have "tokens_have (CHR '','' # comma_separated (u # us)) c
          = tokens_have (comma_separated (u # us)) c"
      by (subst tokens_have.simps, subst (2) tokens_have.simps) (simp only: strtok_comma)
    with True IH assms(2) show ?thesis by auto
  next
    case False
    with 3 have "strtok (t @ CHR '','' # comma_separated (u # us)) CHR '',''
        = Some (t, comma_separated (u # us))"
      by (simp add: strtok_token)
    then have "tokens_have (comma_separated (t # u # us)) c
        \<longleftrightarrow> c = t \<or> tokens_have (comma_separated (u # us)) c"
      by (subst tokens_have.simps) simp
    with IH show ?thesis by auto
  qed
qed

lemma posts_post_login:
  "posts (post_login E srv s) = posts s @ [Post_v srv ''login.php'' (args_v s)]"
  by (simp add: post_login_def)

lemma oob_poll_posts:
  assumes "oob_poll E login_server ky msgp can_do_passcode s = Some y"
  shows "\<forall>r. y = Inr r \<longrightarrow>
       (\<exists>more. posts (snd r) = posts s @ Post_v login_server ''login.php'' (args_v s) # more)"
  apply (rule oob_poll.raw_induct[where P = "\<lambda>E login_server ky msgp can_do_passcode s y.
       \<forall>r. y = Inr r \<longrightarrow>
       (\<exists>more. posts (snd r) = posts s @ Post_v login_server ''login.php'' (args_v s) # more)",
       OF _ assms])
  subgoal premises prems for f E login_server ky msgp can_do_passcode s y
    using prems(2)
    apply (simp add: Let_def split: option.splits if_splits sum.splits)
    apply (auto simp: posts_post_login error_post_def error_message_def found_session_def
              dest!: prems(1))
    done
  done

text \<open>
  C5. The reply names the out-of-band method and lists its capabilities, separated by commas,
  \<open>passcode\<close> among them. With \<open>outofband\<close> also listed, a passcode can be used and
  \<open>oob_login\<close> does not fall back: it sets \<open>outofbandrequest\<close> and runs the polling loop,
  so that whenever it returns, a request has been sent. Without \<open>outofband\<close>, it returns
  \<open>false\<close> at once, the name extended by \<open>" OTP"\<close>, and no request is sent.
\<close>

theorem oob_capabilities_dispatch:
  assumes "reply_v s = Some rep"
      and "xml_error_cause E rep ''outofbandname'' = Some oob_name"
      and "xml_error_cause E rep ''capabilities'' = Some (comma_separated ts)"
      and "\<forall>t\<in>set ts. CHR '','' \<notin> set t"
      and "''passcode'' \<in> set ts"
  shows "has_capabilities (comma_separated ts) ''passcode''
     \<and> (''outofband'' \<in> set ts \<longrightarrow>
          oob_login E login_server ky msgp s =
            (case append_post (args_v s) ''outofbandrequest'' (Some ''1'') of
               Inl e \<Rightarrow> Some (Inl e)
             | Inr a \<Rightarrow>
                 map_option (map_sum id oob_out)
                   (oob_poll E login_server ky msgp True
                      (s\<lparr>otp_name_v := Some oob_name, args_v := a,
                         stderr := stderr s @ [Waiting oob_name True]\<rparr>)))
          \<and> (\<forall>r. oob_login E login_server ky msgp s = Some (Inr r) \<longrightarrow>
                (\<exists>a more. append_post (args_v s) ''outofbandrequest'' (Some ''1'') = Inr a
                   \<and> posts (snd r) = posts s @ Post_v login_server ''login.php'' a # more)))
     \<and> (''outofband'' \<notin> set ts \<longrightarrow>
          oob_login E login_server ky msgp s =
            Some (Inr (False, s\<lparr>otp_name_v := Some (oob_name @ '' OTP''),
                                 stderr := stderr s @ [Reset]\<rparr>)))"
proof -
  have p: "has_capabilities (comma_separated ts) ''passcode''"
    using assms(4,5) by (simp add: has_capabilities_def tokens_have_comma_separated)
  have o: "has_capabilities (comma_separated ts) ''outofband'' \<longleftrightarrow> ''outofband'' \<in> set ts"
    using assms(4) by (simp add: has_capabilities_def tokens_have_comma_separated)
  have f: "''outofband'' \<notin> set ts \<Longrightarrow> oob_login E login_server ky msgp s =
            Some (Inr (False, s\<lparr>otp_name_v := Some (oob_name @ '' OTP''),
                                 stderr := stderr s @ [Reset]\<rparr>))"
    using p o assms(1,2,3) by (simp add: oob_login_def oob_out_def)
  have e: "''outofband'' \<in> set ts \<Longrightarrow> oob_login E login_server ky msgp s =
            (case append_post (args_v s) ''outofbandrequest'' (Some ''1'') of
               Inl e \<Rightarrow> Some (Inl e)
             | Inr a \<Rightarrow>
                 map_option (map_sum id oob_out)
                   (oob_poll E login_server ky msgp True
                      (s\<lparr>otp_name_v := Some oob_name, args_v := a,
                         stderr := stderr s @ [Waiting oob_name True]\<rparr>)))"
    using p o assms(1,2,3) by (simp add: oob_login_def split: sum.splits)
  have g: "\<exists>a more. append_post (args_v s) ''outofbandrequest'' (Some ''1'') = Inr a
                   \<and> posts (snd r) = posts s @ Post_v login_server ''login.php'' a # more"
    if "''outofband'' \<in> set ts" "oob_login E login_server ky msgp s = Some (Inr r)" for r
  proof -
    from that e obtain a y where a: "append_post (args_v s) ''outofbandrequest'' (Some ''1'') = Inr a"
      and y: "oob_poll E login_server ky msgp True
                      (s\<lparr>otp_name_v := Some oob_name, args_v := a,
                         stderr := stderr s @ [Waiting oob_name True]\<rparr>) = Some y"
      and r: "map_sum id oob_out y = Inr r"
      by (auto split: sum.splits)
    from r obtain r' where r': "y = Inr r'" "r = oob_out r'" by (cases y) auto
    from oob_poll_posts[OF y] r' a show ?thesis by (auto simp: oob_out_def)
  qed
  from p f e g show ?thesis by blast
qed

theorem oob_capabilities_dispatch_witness:
  "oob_login (toy_env down 0) ''lastpass.com'' ''key'' True (state0\<lparr>reply_v := Some ''oob-passcode''\<rparr>)
     = Some (Inr (False, state0\<lparr>reply_v := Some ''oob-passcode'',
                    otp_name_v := Some ''Duo Push OTP'', stderr := [Reset]\<rparr>))
   \<and> (\<exists>r a more.
         oob_login (toy_env down 0) ''lastpass.com'' ''key'' True (state0\<lparr>reply_v := Some ''oob-both''\<rparr>)
           = Some (Inr r)
         \<and> append_post (replicate 33 None) ''outofbandrequest'' (Some ''1'') = Inr a
         \<and> posts (snd r) = Post_v ''lastpass.com'' ''login.php'' a # more)"
proof -
  let ?E = "toy_env down 0"
  let ?s1 = "state0\<lparr>reply_v := Some ''oob-passcode''\<rparr>"
  let ?s2 = "state0\<lparr>reply_v := Some ''oob-both''\<rparr>"
  have n1: "xml_error_cause ?E ''oob-passcode'' ''outofbandname'' = Some ''Duo Push''"
    and c1: "xml_error_cause ?E ''oob-passcode'' ''capabilities'' = Some (comma_separated [''passcode''])"
    and n2: "xml_error_cause ?E ''oob-both'' ''outofbandname'' = Some ''Duo Push''"
    and c2: "xml_error_cause ?E ''oob-both'' ''capabilities''
               = Some (comma_separated [''passcode'', ''outofband''])"
    by (simp_all add: toy_env_def toy_error_cause_def)
  have r1: "reply_v ?s1 = Some ''oob-passcode''" and r2: "reply_v ?s2 = Some ''oob-both''"
    by simp_all
  have f1: "\<forall>t\<in>set [''passcode'']. CHR '','' \<notin> set t"
    and f2: "\<forall>t\<in>set [''passcode'', ''outofband'']. CHR '','' \<notin> set t"
    by simp_all
  have p1: "''passcode'' \<in> set [''passcode'']"
    and p2: "''passcode'' \<in> set [''passcode'', ''outofband'']"
    by simp_all
  note A = oob_capabilities_dispatch[OF r1 n1 c1 f1 p1, of "''lastpass.com''" "''key''" True]
  note B = oob_capabilities_dispatch[OF r2 n2 c2 f2 p2, of "''lastpass.com''" "''key''" True]
  have ne: "''outofband'' \<notin> set [''passcode'']" by simp
  from A ne have "oob_login ?E ''lastpass.com'' ''key'' True ?s1
     = Some (Inr (False, ?s1\<lparr>otp_name_v := Some (''Duo Push'' @ '' OTP''),
                              stderr := stderr ?s1 @ [Reset]\<rparr>))"
    by blast
  moreover have "stderr ?s1 = []" by (simp add: state0_def)
  ultimately have 1: "oob_login ?E ''lastpass.com'' ''key'' True ?s1
     = Some (Inr (False, state0\<lparr>reply_v := Some ''oob-passcode'',
                    otp_name_v := Some ''Duo Push OTP'', stderr := [Reset]\<rparr>))"
    by simp
  have "map_option (map_sum id (\<lambda>r. posts (snd r))) (oob_login ?E ''lastpass.com'' ''key'' True ?s2)
      = Some (Inr [Post_v ''lastpass.com'' ''login.php''
                     ([Some ''outofbandrequest'', Some ''1''] @ replicate 31 None)])"
    by code_simp
  then obtain r where r: "oob_login ?E ''lastpass.com'' ''key'' True ?s2 = Some (Inr r)"
    by (cases "oob_login ?E ''lastpass.com'' ''key'' True ?s2"; simp)
       (cases "the (oob_login ?E ''lastpass.com'' ''key'' True ?s2)"; simp)
  have a: "args_v ?s2 = replicate 33 None" "posts ?s2 = []" by (simp_all add: state0_def)
  have el: "''outofband'' \<in> set [''passcode'', ''outofband'']" by simp
  from B el r have "\<exists>a more. append_post (args_v ?s2) ''outofbandrequest'' (Some ''1'') = Inr a
       \<and> posts (snd r) = posts ?s2 @ Post_v ''lastpass.com'' ''login.php'' a # more"
    by blast
  with r 1 show ?thesis unfolding a by auto
qed

subsection \<open>The trust id\<close>

lemma length_trust_alphabet: "length trust_alphabet = 66"
  by (simp add: trust_alphabet_def)

lemma distinct_trust_alphabet: "distinct trust_alphabet"
  by (simp add: trust_alphabet_def)

lemma trust_literal_nth: "j < 66 \<Longrightarrow> trust_literal ! j = trust_alphabet ! j"
  by (simp add: trust_literal_def nth_append length_trust_alphabet)

lemma NUL_notin_alphabet: "CHR 0x00 \<notin> set trust_alphabet"
  by (simp add: trust_alphabet_def)

lemma fill_trust_id_ok:
  assumes "\<forall>n. range_rand E n 0 66 < 66"
  shows "\<exists>buf. fill_trust_id E k r = Inr buf \<and> length buf = k \<and> set buf \<subseteq> set trust_alphabet"
proof (induction k arbitrary: r)
  case 0
  show ?case by simp
next
  case (Suc k)
  from Suc[of "Suc r"] obtain buf where b: "fill_trust_id E k (Suc r) = Inr buf" "length buf = k"
    "set buf \<subseteq> set trust_alphabet" by blast
  have j: "range_rand E r 0 66 < 66" using assms by blast
  then have "trust_literal ! range_rand E r 0 66 \<in> set trust_alphabet"
    by (simp add: trust_literal_nth length_trust_alphabet)
  moreover have "range_rand E r 0 66 < length trust_literal"
    using j by (simp add: trust_literal_def length_trust_alphabet)
  ultimately show ?case using b by (simp add: Let_def)
qed

lemma cstring_id: "CHR 0x00 \<notin> set buf \<Longrightarrow> cstring buf = buf"
  by (auto simp add: cstring_def takeWhile_eq_all_conv)

text \<open>
  C6. A trust id made when none is stored is exactly 32 characters long, each from the
  alphabet of the lower-case letters, the upper-case letters, the digits and \<open>!@#$\<close>, and
  it is stored. That alphabet has 66 characters; the random index is taken to lie below 66,
  within the alphabet.
\<close>

theorem trust_id_generated:
  assumes "config s ''trusted_id'' = None"
      and "\<forall>n. range_rand E n 0 66 < 66"
  shows "\<exists>tid s'. calculate_trust_id E True s = Inr (Some tid, s')
            \<and> config s' ''trusted_id'' = Some tid
            \<and> length tid = 32
            \<and> set tid \<subseteq> set trust_alphabet
            \<and> trust_alphabet = ''abcdefghijklmnopqrstuvwxyz'' @ ''ABCDEFGHIJKLMNOPQRSTUVWXYZ''
                 @ ''1234567890'' @ ''!@#$''
            \<and> card (set trust_alphabet) = 66"
proof -
  from fill_trust_id_ok[OF assms(2), of 32 "rands s"] obtain buf where
    b: "fill_trust_id E 32 (rands s) = Inr buf" "length buf = 32" "set buf \<subseteq> set trust_alphabet"
    by blast
  from b(3) NUL_notin_alphabet have "cstring buf = buf" by (intro cstring_id) blast
  with b assms(1) have "calculate_trust_id E True s
      = Inr (Some buf, config_write_string (s\<lparr>rands := rands s + 32\<rparr>) ''trusted_id'' buf)"
    by (simp add: calculate_trust_id_def config_read_string_def)
  moreover have "card (set trust_alphabet) = 66"
    using distinct_card[OF distinct_trust_alphabet] length_trust_alphabet by simp
  moreover have "trust_alphabet = ''abcdefghijklmnopqrstuvwxyz'' @ ''ABCDEFGHIJKLMNOPQRSTUVWXYZ''
                 @ ''1234567890'' @ ''!@#$''"
    by (simp add: trust_alphabet_def)
  ultimately show ?thesis using b by (simp add: config_write_string_def)
qed

text \<open>The alphabet does not have 67 characters.\<close>

theorem trust_alphabet_counterexample:
  "\<not> (card (set trust_alphabet) = 67)"
  using distinct_card[OF distinct_trust_alphabet] length_trust_alphabet by simp

text \<open>Index 66 is the terminating NUL of the literal: drawn first, it leaves an empty id.\<close>

lemma trust_id_terminator_draw:
  "map_sum id fst (calculate_trust_id (toy_env down 66) True state0) = Inr (Some [])"
  by code_simp

theorem trust_id_generated_witness:
  "\<exists>s'. calculate_trust_id (toy_env down 0) True state0 = Inr (Some (replicate 32 CHR ''a''), s')
        \<and> config s' ''trusted_id'' = Some (replicate 32 CHR ''a'')"
proof -
  have c: "config state0 ''trusted_id'' = None" by (simp add: state0_def)
  have r: "\<forall>n. range_rand (toy_env down 0) n 0 66 < 66" by (simp add: toy_env_def)
  from trust_id_generated[OF c r] obtain tid s' where
    t: "calculate_trust_id (toy_env down 0) True state0 = Inr (Some tid, s')"
       "config s' ''trusted_id'' = Some tid"
    by blast
  have "map_sum id fst (calculate_trust_id (toy_env down 0) True state0)
          = Inr (Some (replicate 32 CHR ''a''))"
    by code_simp
  with t(1) have "tid = replicate 32 CHR ''a''" by simp
  with t show ?thesis by blast
qed

subsection \<open>Transport failure\<close>

lemma fill_trust_id_Inr:
  assumes "\<forall>n. range_rand E n 0 66 \<le> 66"
  shows "\<exists>buf. fill_trust_id E k r = Inr buf"
proof (induction k arbitrary: r)
  case 0
  show ?case by simp
next
  case (Suc k)
  from Suc[of "Suc r"] obtain buf where b: "fill_trust_id E k (Suc r) = Inr buf" by blast
  have "range_rand E r 0 66 < length trust_literal"
    using assms[rule_format, of r] by (simp add: trust_literal_def length_trust_alphabet)
  then show ?case using b by (simp add: Let_def)
qed

lemma calculate_trust_id_Inr:
  assumes "\<forall>n. range_rand E n 0 66 \<le> 66"
  shows "\<exists>tid s'. calculate_trust_id E force s = Inr (tid, s')
           \<and> args_v s' = args_v s \<and> posts s' = posts s \<and> message_v s' = message_v s
           \<and> (tid = None \<longleftrightarrow> \<not> force \<and> config s ''trusted_id'' = None)
           \<and> (\<not> force \<longrightarrow> s' = s)
           \<and> (config s ''trusted_id'' \<noteq> None \<longrightarrow> s' = s \<and> tid = config s ''trusted_id'')
           \<and> (force \<longrightarrow> config s' ''trusted_id'' = tid)"
proof -
  from fill_trust_id_Inr[OF assms, of 32 "rands s"] obtain buf
    where "fill_trust_id E 32 (rands s) = Inr buf" by blast
  then show ?thesis
    by (auto simp add: calculate_trust_id_def config_read_string_def config_write_string_def Let_def)
qed

lemma scan_args_le: "k < length as \<Longrightarrow> as ! k = None \<Longrightarrow> scan_args as nam \<le> k"
proof (induction as arbitrary: k)
  case Nil
  then show ?case by simp
next
  case (Cons a as)
  then show ?case by (cases k) (auto split: option.splits)
qed

lemma append_post_free:
  assumes "\<forall>j. k \<le> j \<and> j < length as \<longrightarrow> as ! j = None" and "Suc k < length as"
  shows "\<exists>as'. append_post as nam v = Inr as' \<and> length as' = length as
           \<and> (\<forall>j. k + 2 \<le> j \<and> j < length as' \<longrightarrow> as' ! j = None)"
proof -
  have "scan_args as nam \<le> k" using assms by (intro scan_args_le) auto
  then show ?thesis using assms by (auto simp add: append_post_def Let_def)
qed

lemma append_posts_free:
  assumes "\<forall>j. k \<le> j \<and> j < length as \<longrightarrow> as ! j = None" and "k + 2 * length nvs < length as"
  shows "\<exists>as'. append_posts as nvs = Inr as' \<and> length as' = length as"
  using assms
proof (induction nvs arbitrary: as k)
  case Nil
  then show ?case by simp
next
  case (Cons nv nvs)
  obtain n v where nv: "nv = (n, v)" by (cases nv)
  from Cons.prems have "Suc k < length as" by simp
  from append_post_free[OF Cons.prems(1) this, of n v] obtain as' where
    a: "append_post as n v = Inr as'" "length as' = length as"
       "\<forall>j. k + 2 \<le> j \<and> j < length as' \<longrightarrow> as' ! j = None" by blast
  from Cons.prems(2) a(2) have "k + 2 + 2 * length nvs < length as'" by simp
  from Cons.IH[OF a(3) this] a nv show ?case by simp
qed

lemma length_login_fields: "length (login_fields E u f h i t) \<le> 10"
  by (simp add: login_fields_def split: option.splits)

lemma login_start_Inr:
  assumes "\<forall>n. range_rand E n 0 66 \<le> 66"
  shows "\<exists>tid s. login_start E username fragment hash iterations trust s0 = Inr (tid, s)
           \<and> posts s = posts s0 \<and> message_v s = message_v s0"
proof -
  let ?s = "s0\<lparr>args_v := replicate 33 None, cause_v := None, reply_v := None,
                 session_v := None, login_server_v := None, otp_name_v := None\<rparr>"
  from calculate_trust_id_Inr[OF assms, of trust ?s] obtain tid s1 where
    c: "calculate_trust_id E trust ?s = Inr (tid, s1)" "args_v s1 = args_v ?s"
       "posts s1 = posts ?s" "message_v s1 = message_v ?s" by blast
  have "\<exists>as'. append_posts (args_v s1) (login_fields E username fragment hash iterations tid) = Inr as'
          \<and> length as' = length (args_v s1)"
    using length_login_fields[of E username fragment hash iterations tid]
    by (intro append_posts_free[where k = 0]) (auto simp add: c(2))
  then obtain a where "append_posts (args_v s1) (login_fields E username fragment hash iterations tid) = Inr a"
    by blast
  with c show ?thesis by (simp add: login_start_def Let_def)
qed

text \<open>
  C9. When the transport gives no reply to the request of an ordinary login attempt, the
  attempt ends with no session and exactly the message \<open>"Unable to post login request."\<close>.
  So does \<open>lastpass_login\<close> when the transport fails on every request. The caller passes a
  message pointer; the random indices lie within the literal.
\<close>

theorem transport_failure:
  assumes "msgp"
  shows "(http_post_lastpass_v E (length (posts s)) login_server ''login.php'' (args_v s) = None \<longrightarrow>
            (\<exists>s'. ordinary_login E login_server ky msgp s = Some (True, s')
                \<and> session_v s' = None
                \<and> message_v s' = Some ''Unable to post login request.''))
       \<and> ((\<forall>n srv page as. http_post_lastpass_v E n srv page as = None)
            \<and> (\<forall>n. range_rand E n 0 66 \<le> 66) \<longrightarrow>
            (\<exists>s'. lastpass_login E username fragment hash ky iterations msgp trust s0 = Some (Inr s')
                \<and> session_v s' = None
                \<and> message_v s' = Some ''Unable to post login request.''))"
proof -
  have 1: "\<exists>s'. ordinary_login E login_server ky msgp s = Some (True, s')
                \<and> session_v s' = None
                \<and> message_v s' = Some ''Unable to post login request.''"
    if "http_post_lastpass_v E (length (posts s)) login_server ''login.php'' (args_v s) = None"
    for login_server s
    using that assms
    by (subst ordinary_login.simps) (simp add: post_login_def error_post_def)
  have 2: "\<exists>s'. lastpass_login E username fragment hash ky iterations msgp trust s0 = Some (Inr s')
                \<and> session_v s' = None
                \<and> message_v s' = Some ''Unable to post login request.''"
    if d: "\<forall>n srv page as. http_post_lastpass_v E n srv page as = None"
      and r: "\<forall>n. range_rand E n 0 66 \<le> 66"
  proof -
    from login_start_Inr[OF r] obtain tid s where
      s: "login_start E username fragment hash iterations trust s0 = Inr (tid, s)" by blast
    from d have "http_post_lastpass_v E (length (posts s)) (LASTPASS_SERVER E) ''login.php'' (args_v s)
        = None" by simp
    from 1[OF this] obtain s' where
      "ordinary_login E (LASTPASS_SERVER E) ky msgp s = Some (True, s')"
      "session_v s' = None" "message_v s' = Some ''Unable to post login request.''" by blast
    with s show ?thesis by (simp add: lastpass_login_def)
  qed
  from 1 2 show ?thesis by blast
qed

theorem transport_failure_witness:
  "map_option (\<lambda>r. (fst r, session_v (snd r), message_v (snd r)))
     (ordinary_login (toy_env down 0) ''lastpass.com'' ''key'' True state0)
   = Some (True, None, Some ''Unable to post login request.'')
   \<and> map_option (map_sum id (\<lambda>s. (session_v s, message_v s)))
     (lastpass_login (toy_env down 0) ''user'' None ''abc'' ''key'' 100100 True False state0)
   = Some (Inr (None, Some ''Unable to post login request.''))"
proof -
  have d: "\<forall>n srv page as. http_post_lastpass_v (toy_env down 0) n srv page as = None"
    by (simp add: toy_env_def down_def)
  have r: "\<forall>n. range_rand (toy_env down 0) n 0 66 \<le> 66" by (simp add: toy_env_def)
  have t: True by simp
  note T = transport_failure[OF t, where E = "toy_env down 0" and s = state0
      and login_server = "''lastpass.com''" and ky = "''key''" and username = "''user''"
      and fragment = None and hash = "''abc''" and iterations = 100100 and trust = False
      and ?s0.0 = state0]
  have "http_post_lastpass_v (toy_env down 0) (length (posts state0)) ''lastpass.com''
          ''login.php'' (args_v state0) = None"
    using d by simp
  with T obtain s1 where
    "ordinary_login (toy_env down 0) ''lastpass.com'' ''key'' True state0 = Some (True, s1)"
    "session_v s1 = None" "message_v s1 = Some ''Unable to post login request.''"
    by blast
  then have 1: "map_option (\<lambda>r. (fst r, session_v (snd r), message_v (snd r)))
     (ordinary_login (toy_env down 0) ''lastpass.com'' ''key'' True state0)
   = Some (True, None, Some ''Unable to post login request.'')"
    by simp
  from T d r
  obtain s' where "lastpass_login (toy_env down 0) ''user'' None ''abc'' ''key'' 100100 True False state0
       = Some (Inr s')" "session_v s' = None" "message_v s' = Some ''Unable to post login request.''"
    by blast
  with 1 show ?thesis by simp
qed

subsection \<open>Redirection\<close>

lemma ordinary_login_redirect:
  assumes "redirects E ky login_server s 0"
  shows "ordinary_login E login_server ky msgp s
           = ordinary_login E ''lastpass.eu'' ky msgp (post_login E login_server s\<lparr>session_v := None\<rparr>)"
  using assms
  by (subst ordinary_login.simps)
     (auto simp add: redirects_def post_login_def Let_def split: option.splits)

lemma ordinary_login_no_redirect:
  assumes "\<not> redirects E ky login_server s 0"
  shows "\<exists>r. ordinary_login E login_server ky msgp s = Some r
           \<and> posts (snd r) = posts s @ [Post_v login_server ''login.php'' (args_v s)]"
  using assms
  by (subst ordinary_login.simps)
     (auto simp add: redirects_def post_login_def Let_def error_post_def error_other_def
        found_session_def split: option.splits)

lemma redirects_shift:
  "redirects E ky ''lastpass.eu'' (post_login E login_server s\<lparr>session_v := None\<rparr>) j
     = redirects E ky login_server s (Suc j)"
  by (simp add: redirects_def post_login_def)

lemma ordinary_login_hops:
  assumes "\<forall>j<n. redirects E ky login_server s j" and "\<not> redirects E ky login_server s n"
  shows "\<exists>r. ordinary_login E login_server ky msgp s = Some r
           \<and> length (posts (snd r)) = length (posts s) + n + 1"
  using assms
proof (induction n arbitrary: login_server s)
  case 0
  from ordinary_login_no_redirect[OF "0.prems"(2), of msgp] show ?case by auto
next
  case (Suc n)
  let ?s = "post_login E login_server s\<lparr>session_v := None\<rparr>"
  from Suc.prems(1) have r0: "redirects E ky login_server s 0" by simp
  have a: "\<forall>j<n. redirects E ky ''lastpass.eu'' ?s j"
    using Suc.prems(1) by (simp add: redirects_shift)
  have b: "\<not> redirects E ky ''lastpass.eu'' ?s n"
    using Suc.prems(2) by (simp add: redirects_shift)
  from Suc.IH[OF a b] obtain r where
    "ordinary_login E ''lastpass.eu'' ky msgp ?s = Some r"
    "length (posts (snd r)) = length (posts ?s) + n + 1" by blast
  then show ?case
    by (simp add: ordinary_login_redirect[OF r0] post_login_def)
qed

lemma ordinary_login_returns:
  assumes "ordinary_login E login_server ky msgp s = Some y"
  shows "\<exists>j. \<not> redirects E ky login_server s j"
  apply (rule ordinary_login.raw_induct[where
      P = "\<lambda>E login_server ky msgp s y. \<exists>j. \<not> redirects E ky login_server s j", OF _ assms])
  subgoal premises prems for f E login_server ky msgp s y
  proof (cases "redirects E ky login_server s 0")
    case False
    then show ?thesis by blast
  next
    case True
    with prems(2) have "f E ''lastpass.eu'' ky msgp (post_login E login_server s\<lparr>session_v := None\<rparr>)
        = Some y"
      by (auto simp add: redirects_def post_login_def Let_def split: option.splits)
    from prems(1)[OF this] show ?thesis by (auto simp add: redirects_shift)
  qed
  done

text \<open>
  C2, as the code has it. A reply without a session whose \<open>server\<close> field is \<open>lastpass.eu\<close>
  makes \<open>ordinary_login\<close> run the whole attempt again against that host with the same
  arguments, once for each such reply: nothing bounds the number of hops. The attempt
  returns exactly when some reply in the chain is not a redirection, and after \<open>n\<close>
  redirections it has sent \<open>n + 1\<close> requests.
\<close>

theorem redirection_hops:
  "(redirects E ky login_server s 0 \<longrightarrow>
      ordinary_login E login_server ky msgp s
        = ordinary_login E ''lastpass.eu'' ky msgp (post_login E login_server s\<lparr>session_v := None\<rparr>)
      \<and> args_v (post_login E login_server s\<lparr>session_v := None\<rparr>) = args_v s)
   \<and> ((\<exists>r. ordinary_login E login_server ky msgp s = Some r)
        \<longleftrightarrow> (\<exists>j. \<not> redirects E ky login_server s j))
   \<and> (\<forall>n. (\<forall>j<n. redirects E ky login_server s j) \<and> \<not> redirects E ky login_server s n \<longrightarrow>
        (\<exists>r. ordinary_login E login_server ky msgp s = Some r
           \<and> length (posts (snd r)) = length (posts s) + n + 1))"
proof -
  have "\<exists>r. ordinary_login E login_server ky msgp s = Some r" if "\<not> redirects E ky login_server s j" for j
  proof -
    from that obtain n where n: "\<not> redirects E ky login_server s n"
      "\<forall>j<n. redirects E ky login_server s j"
      using exists_least_iff[of "\<lambda>j. \<not> redirects E ky login_server s j"] by blast
    from ordinary_login_hops[OF n(2) n(1), of msgp] show ?thesis by blast
  qed
  then show ?thesis
    using ordinary_login_redirect[of E ky login_server s msgp] ordinary_login_returns[of E login_server ky msgp s]
      ordinary_login_hops[of _ E ky login_server s msgp]
    by (auto simp add: post_login_def)
qed

text \<open>Against a server that redirects every request the attempt never returns.\<close>

theorem redirection_counterexample:
  "ordinary_login (toy_env (always ''redirect'') 0) ''lastpass.com'' ''key'' True state0 = None"
proof -
  have "redirects (toy_env (always ''redirect'') 0) ''key'' ''lastpass.com'' state0 j" for j
    by (simp add: redirects_def toy_env_def always_def toy_ok_session_def toy_error_cause_def)
  with ordinary_login_returns[of "toy_env (always ''redirect'') 0" "''lastpass.com''" "''key''" True state0]
  show ?thesis by (cases "ordinary_login (toy_env (always ''redirect'') 0) ''lastpass.com'' ''key'' True state0") auto
qed

theorem redirection_hops_witness:
  "redirects (toy_env redirect_then_ok 0) ''key'' ''lastpass.com'' state0 0
   \<and> \<not> redirects (toy_env redirect_then_ok 0) ''key'' ''lastpass.com'' state0 1
   \<and> (\<exists>r. ordinary_login (toy_env redirect_then_ok 0) ''lastpass.com'' ''key'' True state0 = Some r
          \<and> length (posts (snd r)) = 2)"
proof -
  let ?E = "toy_env redirect_then_ok 0"
  have r0: "redirects ?E ''key'' ''lastpass.com'' state0 0"
    by (simp add: redirects_def toy_env_def redirect_then_ok_def toy_ok_session_def
          toy_error_cause_def)
  have r1: "\<not> redirects ?E ''key'' ''lastpass.com'' state0 1"
    by (simp add: redirects_def toy_env_def redirect_then_ok_def toy_ok_session_def)
  from r0 have a: "\<forall>j<1. redirects ?E ''key'' ''lastpass.com'' state0 j" by simp
  have p: "length (posts state0) = 0" by (simp add: state0_def)
  from redirection_hops[where E = ?E and ky = "''key''" and login_server = "''lastpass.com''"
      and s = state0 and msgp = True]
  have "\<forall>n. (\<forall>j<n. redirects ?E ''key'' ''lastpass.com'' state0 j)
            \<and> \<not> redirects ?E ''key'' ''lastpass.com'' state0 n \<longrightarrow>
        (\<exists>r. ordinary_login ?E ''lastpass.com'' ''key'' True state0 = Some r
           \<and> length (posts (snd r)) = length (posts state0) + n + 1)"
    by blast
  with a r1 have "\<exists>r. ordinary_login ?E ''lastpass.com'' ''key'' True state0 = Some r
           \<and> length (posts (snd r)) = length (posts state0) + 1 + 1"
    by blast
  with r0 r1 p show ?thesis by (simp add: numeral_2_eq_2)
qed

subsection \<open>The server of a session\<close>

lemma session_from_request_post_login:
  assumes "reply_v (post_login E srv s) = Some rep" "xml_ok_session E rep ky = Some sess0"
  shows "session_from_request E ky srv (found_session sess0 srv (post_login E srv s))
           (sess0\<lparr>server := Some srv\<rparr>)"
  using assms by (simp add: session_from_request_def found_session_def post_login_def)

lemma session_from_request_server:
  "session_from_request E ky srv s sess \<Longrightarrow> server sess = Some srv"
  by (auto simp add: session_from_request_def split: list.splits post.splits option.splits)

lemma ordinary_login_session_any:
  assumes "ordinary_login E login_server ky msgp s = Some y"
  shows "\<forall>sess. session_v (snd y) = Some sess \<longrightarrow>
           session_from_request E ky login_server (snd y) sess
           \<or> session_from_request E ky ''lastpass.eu'' (snd y) sess"
  apply (rule ordinary_login.raw_induct[where
      P = "\<lambda>E login_server ky msgp s y. \<forall>sess. session_v (snd y) = Some sess \<longrightarrow>
           session_from_request E ky login_server (snd y) sess
           \<or> session_from_request E ky ''lastpass.eu'' (snd y) sess", OF _ assms])
  subgoal premises prems for f E login_server ky msgp s y
    using prems(2)
    apply (simp add: Let_def split: option.splits if_splits)
    apply (auto simp: error_post_def error_other_def session_from_request_post_login
              dest!: prems(1))
     apply (auto simp: found_session_def dest: session_from_request_post_login)
    done
  done

lemma ordinary_login_session:
  assumes "ordinary_login E login_server ky msgp s = Some y" "session_v (snd y) = Some sess"
  shows "session_from_request E ky
           (if redirects E ky login_server s 0 then ''lastpass.eu'' else login_server) (snd y) sess"
proof (cases "redirects E ky login_server s 0")
  case True
  from assms(1) have "ordinary_login E ''lastpass.eu'' ky msgp
      (post_login E login_server s\<lparr>session_v := None\<rparr>) = Some y"
    by (simp add: ordinary_login_redirect[OF True])
  from ordinary_login_session_any[OF this] assms(2) True show ?thesis by auto
next
  case False
  from assms(1) have "(let s1 = post_login E login_server s in
      case reply_v s1 of
        None \<Rightarrow> Some (error_post msgp s1)
      | Some rep \<Rightarrow>
          (case xml_ok_session E rep ky of
             Some sess \<Rightarrow> Some (True, found_session sess login_server s1)
           | None \<Rightarrow>
               let s2 = s1\<lparr>session_v := None\<rparr>;
                   srv = xml_error_cause E rep ''server''
               in if srv = Some ''lastpass.eu'' then ordinary_login E ''lastpass.eu'' ky msgp s2
                  else
                    let s3 = s2\<lparr>cause_v := xml_error_cause E rep ''cause''\<rparr> in
                    if cause_v s3 = None
                    then Some (error_other msgp s3 ''Unable to determine login failure cause.'')
                    else Some (False, s3\<lparr>login_server_v := Some login_server\<rparr>))) = Some y"
    by (subst (asm) ordinary_login.simps)
  with False assms(2) show ?thesis
    apply (simp add: Let_def redirects_def split: option.splits if_splits)
         apply (auto simp: error_post_def error_other_def post_login_def found_session_def
        session_from_request_def)
    done
qed

lemma oob_poll_session:
  assumes "oob_poll E login_server ky msgp can_do_passcode s = Some y"
  shows "\<forall>r sess. y = Inr r \<longrightarrow> session_v (snd r) = Some sess \<longrightarrow>
           session_from_request E ky login_server (snd r) sess \<or> session_v s = Some sess"
  apply (rule oob_poll.raw_induct[where
      P = "\<lambda>E login_server ky msgp can_do_passcode s y.
         \<forall>r sess. y = Inr r \<longrightarrow> session_v (snd r) = Some sess \<longrightarrow>
           session_from_request E ky login_server (snd r) sess \<or> session_v s = Some sess",
      OF _ assms])
  subgoal premises prems for f E login_server ky msgp can_do_passcode s y
    using prems(2)
    apply (simp add: Let_def split: option.splits if_splits sum.splits)
    apply (auto simp: error_post_def error_message_def post_login_def found_session_def
              session_from_request_def
              dest!: prems(1))
    done
  done

lemma otp_loop_session:
  assumes "otp_loop E login_server ky msgp m username multifactor_error s = Some y"
  shows "\<forall>r sess. y = Inr r \<longrightarrow> session_v (snd r) = Some sess \<longrightarrow>
           session_from_request E ky login_server (snd r) sess"
  apply (rule otp_loop.raw_induct[where
      P = "\<lambda>E login_server ky msgp m username multifactor_error s y.
         \<forall>r sess. y = Inr r \<longrightarrow> session_v (snd r) = Some sess \<longrightarrow>
           session_from_request E ky login_server (snd r) sess",
      OF _ assms])
  subgoal premises prems for f E login_server ky msgp m username multifactor_error s y
    using prems(2)
    apply (simp add: Let_def split: option.splits if_splits sum.splits)
    apply (auto simp: error_post_def error_message_def error_other_def post_login_def
              found_session_def session_from_request_def
              dest!: prems(1))
    done
  done

lemma session_from_request_cong:
  "posts s' = posts s \<Longrightarrow> session_from_request E ky srv s' sess = session_from_request E ky srv s sess"
  by (simp add: session_from_request_def)

lemma oob_login_session:
  assumes "oob_login E login_server ky msgp s = Some (Inr r)"
    and "session_v (snd r) = Some sess" and "session_v s = None"
  shows "session_from_request E ky login_server (snd r) sess"
proof -
  from assms(1) obtain rep where rep: "reply_v s = Some rep"
    by (cases "reply_v s") (auto simp add: oob_login_def)
  let ?s1 = "s\<lparr>otp_name_v := xml_error_cause E rep ''outofbandname''\<rparr>"
  show ?thesis
  proof (cases "\<exists>caps nm a. xml_error_cause E rep ''capabilities'' = Some caps
        \<and> xml_error_cause E rep ''outofbandname'' = Some nm
        \<and> \<not> (has_capabilities caps ''passcode'' \<and> \<not> has_capabilities caps ''outofband'')
        \<and> append_post (args_v s) ''outofbandrequest'' (Some ''1'') = Inr a")
    case False
    with assms rep show ?thesis
      by (auto simp add: oob_login_def Let_def error_other_def oob_out_def
            split: option.splits if_splits sum.splits)
  next
    case True
    then obtain caps nm a where c: "xml_error_cause E rep ''capabilities'' = Some caps"
      "xml_error_cause E rep ''outofbandname'' = Some nm"
      "\<not> (has_capabilities caps ''passcode'' \<and> \<not> has_capabilities caps ''outofband'')"
      "append_post (args_v s) ''outofbandrequest'' (Some ''1'') = Inr a" by blast
    let ?s2 = "?s1\<lparr>args_v := a, stderr := stderr ?s1 @ [Waiting nm (has_capabilities caps ''passcode'')]\<rparr>"
    from assms(1) rep c obtain y where
      y: "oob_poll E login_server ky msgp (has_capabilities caps ''passcode'') ?s2 = Some y"
      and r: "map_sum id oob_out y = Inr r"
      by (auto simp add: oob_login_def Let_def)
    from r obtain r' where r': "y = Inr r'" "r = oob_out r'" by (cases y) auto
    from assms(2) r'(2) have "session_v (snd r') = Some sess" by (simp add: oob_out_def)
    with oob_poll_session[OF y] r'(1) assms(3)
    have "session_from_request E ky login_server (snd r') sess" by auto
    then show ?thesis using r'(2)
      by (simp add: oob_out_def session_from_request_cong[of "snd r'\<lparr>stderr := stderr (snd r') @ [Reset]\<rparr>" "snd r'"])
  qed
qed

lemma otp_login_session:
  assumes "otp_login E login_server ky msgp cause username s = Some (Inr r)"
    and "session_v (snd r) = Some sess"
  shows "session_from_request E ky login_server (snd r) sess"
proof (cases "find_multifactor multifactor_types cause")
  case None
  with assms show ?thesis
    by (auto simp add: otp_login_def error_message_def split: option.splits)
next
  case (Some m)
  with assms(1) have "otp_loop E login_server ky msgp m username None s = Some (Inr r)"
    by (simp add: otp_login_def)
  from otp_loop_session[OF this] assms(2) show ?thesis by blast
qed

text \<open>
  C3. Whenever an ordinary attempt, the out-of-band poll or the multifactor retry returns
  with a session, that session was found in the reply to the last request of the cycle and
  its server field is the server that request was posted to. For an ordinary attempt whose
  first reply is a redirection this is \<open>lastpass.eu\<close>, not the server first asked.
\<close>

theorem session_server_is_request_server:
  "(ordinary_login E login_server ky msgp s = Some (b, s') \<and> session_v s' = Some sess \<longrightarrow>
      session_from_request E ky
        (if redirects E ky login_server s 0 then ''lastpass.eu'' else login_server) s' sess
      \<and> server sess = Some (if redirects E ky login_server s 0 then ''lastpass.eu'' else login_server))
   \<and> (oob_login E login_server ky msgp s = Some (Inr (b, s')) \<and> session_v s = None
        \<and> session_v s' = Some sess \<longrightarrow>
      session_from_request E ky login_server s' sess \<and> server sess = Some login_server)
   \<and> (otp_login E login_server ky msgp cause username s = Some (Inr (b, s'))
        \<and> session_v s' = Some sess \<longrightarrow>
      session_from_request E ky login_server s' sess \<and> server sess = Some login_server)"
  using ordinary_login_session[of E login_server ky msgp s "(b, s')" sess]
    oob_login_session[of E login_server ky msgp s "(b, s')" sess]
    otp_login_session[of E login_server ky msgp cause username s "(b, s')" sess]
    session_from_request_server[of E ky _ s' sess]
  by auto

theorem session_server_is_request_server_witness:
  "(\<exists>b s' sess.
      ordinary_login (toy_env redirect_then_ok 0) ''lastpass.com'' ''key'' True state0 = Some (b, s')
      \<and> session_v s' = Some sess
      \<and> session_from_request (toy_env redirect_then_ok 0) ''key'' ''lastpass.eu'' s' sess
      \<and> server sess = Some ''lastpass.eu'')
   \<and> (\<exists>b s' sess.
      oob_login (toy_env (always ''ok'') 0) ''lastpass.com'' ''key'' True
          (state0\<lparr>reply_v := Some ''oob-push''\<rparr>) = Some (Inr (b, s'))
      \<and> session_v s' = Some sess
      \<and> session_from_request (toy_env (always ''ok'') 0) ''key'' ''lastpass.com'' s' sess
      \<and> server sess = Some ''lastpass.com'')
   \<and> (\<exists>b s' sess.
      otp_login (toy_env_code (always ''ok'')) ''lastpass.com'' ''key'' True ''googleauthrequired''
          ''user'' state0 = Some (Inr (b, s'))
      \<and> session_v s' = Some sess
      \<and> session_from_request (toy_env_code (always ''ok'')) ''key'' ''lastpass.com'' s' sess
      \<and> server sess = Some ''lastpass.com'')"
proof -
  let ?E1 = "toy_env redirect_then_ok 0"
  let ?E2 = "toy_env (always ''ok'') 0"
  let ?E3 = "toy_env_code (always ''ok'')"
  let ?s2 = "state0\<lparr>reply_v := Some ''oob-push''\<rparr>"
  have e1: "map_option (\<lambda>r. session_v (snd r)) (ordinary_login ?E1 ''lastpass.com'' ''key'' True state0)
      = Some (Some (toy_session\<lparr>server := Some ''lastpass.eu''\<rparr>))"
    by code_simp
  have e2: "map_option (map_sum id (\<lambda>r. session_v (snd r))) (oob_login ?E2 ''lastpass.com'' ''key'' True ?s2)
      = Some (Inr (Some (toy_session\<lparr>server := Some ''lastpass.com''\<rparr>)))"
    by code_simp
  have e3: "map_option (map_sum id (\<lambda>r. session_v (snd r)))
        (otp_login ?E3 ''lastpass.com'' ''key'' True ''googleauthrequired'' ''user'' state0)
      = Some (Inr (Some (toy_session\<lparr>server := Some ''lastpass.com''\<rparr>)))"
    by code_simp
  from e1 obtain b1 s1 sess1 where
    1: "ordinary_login ?E1 ''lastpass.com'' ''key'' True state0 = Some (b1, s1)"
       "session_v s1 = Some sess1"
    by (cases "ordinary_login ?E1 ''lastpass.com'' ''key'' True state0") auto
  from e2 obtain b2 s2 sess2 where
    2: "oob_login ?E2 ''lastpass.com'' ''key'' True ?s2 = Some (Inr (b2, s2))"
       "session_v s2 = Some sess2"
    by (cases "oob_login ?E2 ''lastpass.com'' ''key'' True ?s2";
        cases "the (oob_login ?E2 ''lastpass.com'' ''key'' True ?s2)") auto
  from e3 obtain b3 s3 sess3 where
    3: "otp_login ?E3 ''lastpass.com'' ''key'' True ''googleauthrequired'' ''user'' state0
          = Some (Inr (b3, s3))"
       "session_v s3 = Some sess3"
    by (cases "otp_login ?E3 ''lastpass.com'' ''key'' True ''googleauthrequired'' ''user'' state0";
        cases "the (otp_login ?E3 ''lastpass.com'' ''key'' True ''googleauthrequired'' ''user'' state0)")
       auto
  have r: "redirects ?E1 ''key'' ''lastpass.com'' state0 0"
    by (simp add: redirects_def toy_env_def redirect_then_ok_def toy_ok_session_def
          toy_error_cause_def)
  have n: "session_v ?s2 = None" by (simp add: state0_def)
  from session_server_is_request_server[where E = ?E1 and login_server = "''lastpass.com''"
      and ky = "''key''" and msgp = True and s = state0 and b = b1 and s' = s1 and sess = sess1]
    1 r
  have A: "session_from_request ?E1 ''key'' ''lastpass.eu'' s1 sess1 \<and> server sess1 = Some ''lastpass.eu''"
    by simp
  from session_server_is_request_server[where E = ?E2 and login_server = "''lastpass.com''"
      and ky = "''key''" and msgp = True and s = ?s2 and b = b2 and s' = s2 and sess = sess2]
    2 n
  have B: "session_from_request ?E2 ''key'' ''lastpass.com'' s2 sess2 \<and> server sess2 = Some ''lastpass.com''"
    by blast
  from session_server_is_request_server[where E = ?E3 and login_server = "''lastpass.com''"
      and ky = "''key''" and msgp = True and s = state0 and b = b3 and s' = s3 and sess = sess3
      and cause = "''googleauthrequired''" and username = "''user''"]
    3
  have C: "session_from_request ?E3 ''key'' ''lastpass.com'' s3 sess3 \<and> server sess3 = Some ''lastpass.com''"
    by blast
  from 1 2 3 A B C show ?thesis by blast
qed

subsection \<open>The first request\<close>

lemma login_fields_pairs:
  assumes "\<forall>v \<in> {xstrlower E username, hash, xultostr E iterations} \<union> set_option fragment.
             v \<notin> {''hash'', ''iterations'', ''includeprivatekeyenc'', ''method'',
                   ''outofbandsupported'', ''alpfragmentid'', ''calculatedfragmentid'', ''uuid''}"
  shows "\<exists>a. append_posts (replicate 33 None)
                (login_fields E username fragment hash iterations trusted_id) = Inr a
             \<and> post_pairs a = login_fields E username fragment hash iterations trusted_id"
  using assms
  by (cases fragment; cases trusted_id)
     (simp_all add: login_fields_def append_post_def numeral_eq_Suc Let_def)

lemma uuid_in_login_fields:
  "''uuid'' \<in> fst ` set (login_fields E username fragment hash iterations trusted_id)
     \<longleftrightarrow> trusted_id \<noteq> None"
  by (cases fragment; cases trusted_id) (simp_all add: login_fields_def)

lemma ordinary_login_first_post:
  assumes "ordinary_login E login_server ky msgp s = Some y"
  shows "\<exists>more. posts (snd y) = posts s @ Post_v login_server ''login.php'' (args_v s) # more"
  apply (rule ordinary_login.raw_induct[where P = "\<lambda>E login_server ky msgp s y.
       \<exists>more. posts (snd y) = posts s @ Post_v login_server ''login.php'' (args_v s) # more",
       OF _ assms])
  subgoal premises prems for f E login_server ky msgp s y
    using prems(2)
    apply (simp add: Let_def split: option.splits if_splits)
    apply (auto simp: posts_post_login error_post_def error_other_def found_session_def
              dest!: prems(1))
    done
  done

text \<open>
  C1, as the code has it. The trust id is read before the first request is built and, when
  trust is asked for and none is stored, it is made and stored then. The first request
  carries a \<open>uuid\<close> field exactly when a trust id is stored or trust is asked for. When
  trust is not asked for, or an id is stored, no id is made: the store is unchanged and no
  random number is drawn. The request that \<open>ordinary_login\<close> sends first carries these
  fields. The values of the user name, the hash, the iteration count and the fragment are
  taken not to be names of fields set after them; the random indices lie within the literal.
\<close>

theorem first_request_uuid:
  assumes "\<forall>n. range_rand E n 0 66 \<le> 66"
      and "\<forall>v \<in> {xstrlower E username, hash, xultostr E iterations} \<union> set_option fragment.
             v \<notin> {''hash'', ''iterations'', ''includeprivatekeyenc'', ''method'',
                   ''outofbandsupported'', ''alpfragmentid'', ''calculatedfragmentid'', ''uuid''}"
  shows "\<exists>trusted_id s.
           login_start E username fragment hash iterations trust s0 = Inr (trusted_id, s)
         \<and> post_pairs (args_v s) = login_fields E username fragment hash iterations trusted_id
         \<and> (''uuid'' \<in> fst ` set (post_pairs (args_v s))
              \<longleftrightarrow> config s0 ''trusted_id'' \<noteq> None \<or> trust)
         \<and> (\<not> trust \<or> config s0 ''trusted_id'' \<noteq> None \<longrightarrow>
              config s = config s0 \<and> rands s = rands s0 \<and> trusted_id = config s0 ''trusted_id'')
         \<and> (trust \<and> config s0 ''trusted_id'' = None \<longrightarrow>
              trusted_id \<noteq> None \<and> config s ''trusted_id'' = trusted_id)
         \<and> (\<forall>r. ordinary_login E (LASTPASS_SERVER E) ky msgp s = Some r \<longrightarrow>
              (\<exists>more. posts (snd r)
                  = posts s0 @ Post_v (LASTPASS_SERVER E) ''login.php'' (args_v s) # more))"
proof -
  let ?s = "s0\<lparr>args_v := replicate 33 None, cause_v := None, reply_v := None,
                 session_v := None, login_server_v := None, otp_name_v := None\<rparr>"
  from calculate_trust_id_Inr[OF assms(1), of trust ?s] obtain tid s1 where
    c: "calculate_trust_id E trust ?s = Inr (tid, s1)" "args_v s1 = args_v ?s"
       "posts s1 = posts ?s"
       "tid = None \<longleftrightarrow> \<not> trust \<and> config ?s ''trusted_id'' = None"
       "\<not> trust \<longrightarrow> s1 = ?s"
       "config ?s ''trusted_id'' \<noteq> None \<longrightarrow> s1 = ?s \<and> tid = config ?s ''trusted_id''"
       "trust \<longrightarrow> config s1 ''trusted_id'' = tid"
    by blast
  from login_fields_pairs[OF assms(2), of tid] obtain a where
    a: "append_posts (replicate 33 None) (login_fields E username fragment hash iterations tid) = Inr a"
       "post_pairs a = login_fields E username fragment hash iterations tid"
    by blast
  let ?r = "s1\<lparr>args_v := a\<rparr>"
  have 1: "login_start E username fragment hash iterations trust s0 = Inr (tid, ?r)"
    using c(1,2) a(1) by (simp add: login_start_def Let_def)
  have 2: "post_pairs (args_v ?r) = login_fields E username fragment hash iterations tid"
    using a(2) by simp
  have 3: "''uuid'' \<in> fst ` set (post_pairs (args_v ?r))
              \<longleftrightarrow> config s0 ''trusted_id'' \<noteq> None \<or> trust"
    using c(4) by (simp only: 2 uuid_in_login_fields) auto
  have 4: "\<not> trust \<or> config s0 ''trusted_id'' \<noteq> None \<longrightarrow>
              config ?r = config s0 \<and> rands ?r = rands s0 \<and> tid = config s0 ''trusted_id''"
    using c(4,5,6) by auto
  have 5: "trust \<and> config s0 ''trusted_id'' = None \<longrightarrow>
              tid \<noteq> None \<and> config ?r ''trusted_id'' = tid"
    using c(4,7) by auto
  have 6: "\<exists>more. posts (snd r)
                  = posts s0 @ Post_v (LASTPASS_SERVER E) ''login.php'' (args_v ?r) # more"
    if "ordinary_login E (LASTPASS_SERVER E) ky msgp ?r = Some r" for r
    using ordinary_login_first_post[OF that] c(3) by simp
  from 1 2 3 4 5 6 show ?thesis by blast
qed

text \<open>
  With trust asked for and an empty store, the first request already carries a \<open>uuid\<close>
  field, holding an id made and stored before the request.
\<close>

theorem first_request_uuid_counterexample:
  "config state0 ''trusted_id'' = None
   \<and> map_option (map_sum id (\<lambda>s. (posts s, config s ''trusted_id'')))
       (lastpass_login (toy_env down 0) ''user'' None ''abc'' ''key'' 100100 True True state0)
     = Some (Inr ([Post_v ''lastpass.com'' ''login.php''
          ([Some ''xml'', Some ''2'', Some ''username'', Some ''user'',
           Some ''hash'', Some ''abc'', Some ''iterations'',
           Some ''100100'', Some ''includeprivatekeyenc'', Some ''1'',
           Some ''method'', Some ''cli'', Some ''outofbandsupported'',
           Some ''1'', Some ''uuid'',
           Some ''aaaaaaaaaaaaaaaaaaaaaaaaaaaaaaaa''] @ replicate 17 None)],
        Some ''aaaaaaaaaaaaaaaaaaaaaaaaaaaaaaaa''))"
  by code_simp

theorem first_request_uuid_witness:
  "(\<exists>trusted_id s.
      login_start (toy_env down 0) ''user'' (Some ''frag'') ''abc'' 100100 True state0
        = Inr (trusted_id, s)
      \<and> ''uuid'' \<in> fst ` set (post_pairs (args_v s))
      \<and> trusted_id \<noteq> None \<and> config s ''trusted_id'' = trusted_id)
   \<and> (\<exists>trusted_id s.
      login_start (toy_env down 0) ''user'' (Some ''frag'') ''abc'' 100100 False state0
        = Inr (trusted_id, s)
      \<and> ''uuid'' \<notin> fst ` set (post_pairs (args_v s))
      \<and> trusted_id = None \<and> config s = config state0 \<and> rands s = rands state0)"
proof -
  let ?E = "toy_env down 0"
  have r: "\<forall>n. range_rand ?E n 0 66 \<le> 66" by (simp add: toy_env_def)
  have v: "\<forall>v \<in> {xstrlower ?E ''user'', ''abc'', xultostr ?E 100100} \<union> set_option (Some ''frag'').
             v \<notin> {''hash'', ''iterations'', ''includeprivatekeyenc'', ''method'',
                   ''outofbandsupported'', ''alpfragmentid'', ''calculatedfragmentid'', ''uuid''}"
    by (simp add: toy_env_def)
  have c: "config state0 ''trusted_id'' = None" by (simp add: state0_def)
  from first_request_uuid[OF r v, where trust = True and ?s0.0 = state0 and ky = "''key''"
      and msgp = True] c
  have 1: "\<exists>trusted_id s.
      login_start ?E ''user'' (Some ''frag'') ''abc'' 100100 True state0 = Inr (trusted_id, s)
      \<and> ''uuid'' \<in> fst ` set (post_pairs (args_v s))
      \<and> trusted_id \<noteq> None \<and> config s ''trusted_id'' = trusted_id"
    by blast
  from first_request_uuid[OF r v, where trust = False and ?s0.0 = state0 and ky = "''key''"
      and msgp = True] c
  have 2: "\<exists>trusted_id s.
      login_start ?E ''user'' (Some ''frag'') ''abc'' 100100 False state0 = Inr (trusted_id, s)
      \<and> ''uuid'' \<notin> fst ` set (post_pairs (args_v s))
      \<and> trusted_id = None \<and> config s = config state0 \<and> rands s = rands state0"
    by auto
  from 1 2 show ?thesis by blast
qed

text \<open>
  The condition on the values is needed. For the user name \<open>uuid\<close>, with trust asked for,
  \<open>append_post\<close> finds the name \<open>uuid\<close> in the value slot of \<open>username\<close> and writes the
  id over the name \<open>hash\<close>: the request then has no field named \<open>uuid\<close>.
\<close>

lemma first_request_uuid_needs_distinct_values:
  "map_sum id (\<lambda>r. map fst (post_pairs (args_v (snd r))))
     (login_start (toy_env down 0) ''uuid'' None ''abc'' 100100 True state0)
   = Inr [''xml'', ''username'', ''aaaaaaaaaaaaaaaaaaaaaaaaaaaaaaaa'', ''iterations'',
          ''includeprivatekeyenc'', ''method'', ''outofbandsupported'']"
  by code_simp

subsection \<open>Failures of the whole login\<close>

text \<open>
  What each part leaves when it returns, for a caller that passes a message pointer: a
  \<open>true\<close> result without a session comes with a message, a \<open>false\<close> result leaves the
  session \<open>NULL\<close>.
\<close>

lemma ordinary_login_outcome:
  assumes "ordinary_login E login_server ky msgp s = Some y"
  shows "msgp \<longrightarrow>
         (fst y \<and> session_v (snd y) = None \<longrightarrow> message_v (snd y) \<noteq> None)
       \<and> (\<not> fst y \<longrightarrow> session_v (snd y) = None \<and> cause_v (snd y) \<noteq> None
              \<and> login_server_v (snd y) \<noteq> None)"
  apply (rule ordinary_login.raw_induct[where P = "\<lambda>E login_server ky msgp s y. msgp \<longrightarrow>
         (fst y \<and> session_v (snd y) = None \<longrightarrow> message_v (snd y) \<noteq> None)
       \<and> (\<not> fst y \<longrightarrow> session_v (snd y) = None \<and> cause_v (snd y) \<noteq> None
              \<and> login_server_v (snd y) \<noteq> None)", OF _ assms])
  subgoal premises prems for f E login_server ky msgp s y
    using prems(2)
    apply (simp add: Let_def split: option.splits if_splits)
    apply (auto simp: error_post_def error_other_def found_session_def
              dest!: prems(1))
    done
  done

lemma oob_poll_outcome:
  assumes "oob_poll E login_server ky msgp can_do_passcode s = Some y"
  shows "msgp \<longrightarrow> (\<forall>r. y = Inr r \<longrightarrow>
          (fst r \<and> session_v (snd r) = None \<longrightarrow> message_v (snd r) \<noteq> None)
        \<and> (\<not> fst r \<longrightarrow> session_v (snd r) = None \<or> session_v (snd r) = session_v s))"
  apply (rule oob_poll.raw_induct[where P = "\<lambda>E login_server ky msgp can_do_passcode s y.
       msgp \<longrightarrow> (\<forall>r. y = Inr r \<longrightarrow>
          (fst r \<and> session_v (snd r) = None \<longrightarrow> message_v (snd r) \<noteq> None)
        \<and> (\<not> fst r \<longrightarrow> session_v (snd r) = None \<or> session_v (snd r) = session_v s))",
       OF _ assms])
  subgoal premises prems for f E login_server ky msgp can_do_passcode s y
    using prems(2)
    apply (simp add: Let_def split: option.splits if_splits sum.splits)
    apply (auto simp: error_post_def error_message_def found_session_def post_login_def
              split: option.splits dest!: prems(1))
    done
  done

lemma otp_loop_outcome:
  assumes "otp_loop E login_server ky msgp m username multifactor_error s = Some y"
  shows "msgp \<longrightarrow> (\<forall>r. y = Inr r \<longrightarrow>
          fst r \<and> (session_v (snd r) = None \<longrightarrow> message_v (snd r) \<noteq> None))"
  apply (rule otp_loop.raw_induct[where P = "\<lambda>E login_server ky msgp m username multifactor_error s y.
       msgp \<longrightarrow> (\<forall>r. y = Inr r \<longrightarrow>
          fst r \<and> (session_v (snd r) = None \<longrightarrow> message_v (snd r) \<noteq> None))",
       OF _ assms])
  subgoal premises prems for f E login_server ky msgp m username multifactor_error s y
    using prems(2)
    apply (simp add: Let_def split: option.splits if_splits sum.splits)
    apply (auto simp: error_post_def error_message_def error_other_def found_session_def
              split: option.splits dest!: prems(1))
    done
  done

lemma oob_login_outcome:
  assumes "oob_login E login_server ky msgp s = Some (Inr r)" and "msgp" and "session_v s = None"
  shows "(fst r \<and> session_v (snd r) = None \<longrightarrow> message_v (snd r) \<noteq> None)
       \<and> (\<not> fst r \<longrightarrow> session_v (snd r) = None)"
proof -
  from assms(1) obtain rep where rep: "reply_v s = Some rep"
    by (cases "reply_v s") (auto simp add: oob_login_def)
  let ?s1 = "s\<lparr>otp_name_v := xml_error_cause E rep ''outofbandname''\<rparr>"
  show ?thesis
  proof (cases "\<exists>caps nm a. xml_error_cause E rep ''capabilities'' = Some caps
        \<and> xml_error_cause E rep ''outofbandname'' = Some nm
        \<and> \<not> (has_capabilities caps ''passcode'' \<and> \<not> has_capabilities caps ''outofband'')
        \<and> append_post (args_v s) ''outofbandrequest'' (Some ''1'') = Inr a")
    case False
    with assms rep show ?thesis
      by (auto simp add: oob_login_def Let_def error_other_def oob_out_def
            split: option.splits if_splits sum.splits)
  next
    case True
    then obtain caps nm a where c: "xml_error_cause E rep ''capabilities'' = Some caps"
      "xml_error_cause E rep ''outofbandname'' = Some nm"
      "\<not> (has_capabilities caps ''passcode'' \<and> \<not> has_capabilities caps ''outofband'')"
      "append_post (args_v s) ''outofbandrequest'' (Some ''1'') = Inr a" by blast
    let ?s2 = "?s1\<lparr>args_v := a, stderr := stderr ?s1 @ [Waiting nm (has_capabilities caps ''passcode'')]\<rparr>"
    from assms(1) rep c obtain y where
      y: "oob_poll E login_server ky msgp (has_capabilities caps ''passcode'') ?s2 = Some y"
      and r: "map_sum id oob_out y = Inr r"
      by (auto simp add: oob_login_def Let_def)
    from r obtain r' where r': "y = Inr r'" "r = oob_out r'" by (cases y) auto
    from oob_poll_outcome[OF y] assms(2,3) r'(1)
    have "(fst r' \<and> session_v (snd r') = None \<longrightarrow> message_v (snd r') \<noteq> None)
        \<and> (\<not> fst r' \<longrightarrow> session_v (snd r') = None)"
      by auto
    then show ?thesis using r'(2) by (simp add: oob_out_def)
  qed
qed

lemma otp_login_outcome:
  assumes "otp_login E login_server ky msgp cause username s = Some (Inr r)" and "msgp"
  shows "fst r \<and> (session_v (snd r) = None \<longrightarrow> message_v (snd r) \<noteq> None)"
proof (cases "find_multifactor multifactor_types cause")
  case None
  with assms show ?thesis
    by (auto simp add: otp_login_def error_message_def split: option.splits)
next
  case (Some m)
  with assms(1) have "otp_loop E login_server ky msgp m username None s = Some (Inr r)"
    by (simp add: otp_login_def)
  from otp_loop_outcome[OF this] assms(2) show ?thesis by blast
qed

lemma session_from_request_nth:
  assumes "session_from_request E ky srv s sess"
  shows "\<exists>i as rep sess0. i < length (posts s) \<and> posts s ! i = Post_v srv ''login.php'' as
           \<and> http_post_lastpass_v E i srv ''login.php'' as = Some rep
           \<and> xml_ok_session E rep ky = Some sess0 \<and> sess = sess0\<lparr>server := Some srv\<rparr>"
proof -
  from assms obtain as earlier rep sess0 where
    r: "rev (posts s) = Post_v srv ''login.php'' as # earlier"
    and h: "http_post_lastpass_v E (length earlier) srv ''login.php'' as = Some rep"
       "xml_ok_session E rep ky = Some sess0" "sess = sess0\<lparr>server := Some srv\<rparr>"
    by (auto simp add: session_from_request_def split: list.splits post.splits option.splits)
  from r have "posts s = rev earlier @ [Post_v srv ''login.php'' as]"
    by (metis rev_rev_ident rev.simps(2))
  then have "length earlier < length (posts s)"
    "posts s ! length earlier = Post_v srv ''login.php'' as"
    by (simp_all add: nth_append)
  with h show ?thesis by blast
qed

lemma login_otp_outcome:
  assumes "login_otp E login_server ky msgp user_lower s = Some (Inr s')" and "msgp"
  shows "(session_v s' = None \<and> message_v s' \<noteq> None)
       \<or> (\<exists>sess. session_v s' = Some sess \<and> session_from_request E ky login_server s' sess)"
proof -
  from assms(1) obtain cause r where
    o: "otp_login E login_server ky msgp cause user_lower s = Some (Inr r)"
    and s': "s' = (if fst r then snd r
                   else snd (error_other msgp (snd r) ''An unspecified error occurred.''))"
    by (auto simp add: login_otp_def split: option.splits sum.splits if_splits)
  from otp_login_outcome[OF o assms(2)] s' have 1: "s' = snd r"
    "session_v s' = None \<longrightarrow> message_v s' \<noteq> None" by auto
  show ?thesis
  proof (cases "session_v s'")
    case None
    with 1 show ?thesis by simp
  next
    case (Some sess)
    with otp_login_session[OF o, of sess] 1(1) show ?thesis by simp
  qed
qed

lemma login_multifactor_outcome:
  assumes "login_multifactor E ky msgp trust user_lower trusted_id s = Some (Inr s')"
    and "msgp" and "session_v s = None"
  shows "(session_v s' = None \<and> message_v s' \<noteq> None)
       \<or> (\<exists>sess srv i as rep sess0. session_v s' = Some sess
            \<and> i < length (posts s') \<and> posts s' ! i = Post_v srv ''login.php'' as
            \<and> http_post_lastpass_v E i srv ''login.php'' as = Some rep
            \<and> xml_ok_session E rep ky = Some sess0 \<and> sess = sess0\<lparr>server := Some srv\<rparr>)"
proof -
  from assms(1) obtain trusted_label a login_server where
    l: "login_server_v s = Some login_server"
    and m: "(if cause_v s = Some ''outofbandrequired'' then
            (case oob_login E login_server ky msgp (s\<lparr>args_v := a\<rparr>) of
               None \<Rightarrow> None
             | Some (Inl e) \<Rightarrow> Some (Inl e)
             | Some (Inr r) \<Rightarrow>
                 if fst r then
                   (if trust then
                      (case session_v (snd r) of
                         None \<Rightarrow> Some (Inl NullDeref)
                       | Some sess \<Rightarrow>
                           Some (Inr ((snd r)\<lparr>posts := posts (snd r) @
                             [Post ''trust.php'' (Some sess)
                                [Some ''token'', Some (token sess), Some ''uuid'', trusted_id,
                                 Some ''trustlabel'', trusted_label]]\<rparr>)))
                    else Some (Inr (snd r)))
                 else login_otp E login_server ky msgp user_lower (snd r))
          else login_otp E login_server ky msgp user_lower (s\<lparr>args_v := a\<rparr>)) = Some (Inr s')"
    by (auto simp add: login_multifactor_def Let_def split: sum.splits option.splits)
  let ?s1 = "s\<lparr>args_v := a\<rparr>"
  have n: "session_v ?s1 = None" using assms(3) by simp
  have otp: ?thesis if "login_otp E login_server ky msgp user_lower t = Some (Inr s')" for t
    using login_otp_outcome[OF that assms(2)] session_from_request_nth[of E ky login_server s']
    by blast
  show ?thesis
  proof (cases "cause_v s = Some ''outofbandrequired''")
    case False
    with m otp show ?thesis by simp
  next
    case True
    with m obtain r where r: "oob_login E login_server ky msgp ?s1 = Some (Inr r)"
      by (auto split: option.splits sum.splits)
    note O = oob_login_outcome[OF r assms(2) n]
    show ?thesis
    proof (cases "fst r")
      case False
      with m True r otp show ?thesis by simp
    next
      case f: True
      show ?thesis
      proof (cases "session_v (snd r)")
        case None
        with m True r f O show ?thesis by (auto split: if_splits)
      next
        case (Some sess)
        from session_from_request_nth[OF oob_login_session[OF r Some n]]
        obtain i as rep sess0 where
          v: "i < length (posts (snd r))" "posts (snd r) ! i = Post_v login_server ''login.php'' as"
             "http_post_lastpass_v E i login_server ''login.php'' as = Some rep"
             "xml_ok_session E rep ky = Some sess0" "sess = sess0\<lparr>server := Some login_server\<rparr>"
          by blast
        from m True r f Some have
          "posts s' = posts (snd r) \<or> (\<exists>p. posts s' = posts (snd r) @ [p])"
          "session_v s' = Some sess"
          by (auto split: if_splits)
        with v have "i < length (posts s')" "posts s' ! i = Post_v login_server ''login.php'' as"
          by (auto simp add: nth_append)
        with v \<open>session_v s' = Some sess\<close> show ?thesis by blast
      qed
    qed
  qed
qed

text \<open>
  Whenever \<open>lastpass_login\<close> returns, it returns either no session and a message, or a
  session found in the reply to one of its requests, with that request's server.
\<close>

lemma lastpass_login_outcome:
  assumes "lastpass_login E username fragment hash ky iterations msgp trust s0 = Some (Inr s')"
    and "msgp"
  shows "(session_v s' = None \<and> message_v s' \<noteq> None)
       \<or> (\<exists>sess srv i as rep sess0. session_v s' = Some sess
            \<and> i < length (posts s') \<and> posts s' ! i = Post_v srv ''login.php'' as
            \<and> http_post_lastpass_v E i srv ''login.php'' as = Some rep
            \<and> xml_ok_session E rep ky = Some sess0 \<and> sess = sess0\<lparr>server := Some srv\<rparr>)"
proof -
  from assms(1) obtain trusted_id s r where
    o: "ordinary_login E (LASTPASS_SERVER E) ky msgp s = Some r"
    and m: "(if fst r then Some (Inr (snd r))
             else login_multifactor E ky msgp trust (xstrlower E username) trusted_id (snd r))
            = Some (Inr s')"
    by (auto simp add: lastpass_login_def split: sum.splits option.splits)
  note O = ordinary_login_outcome[OF o, rule_format, OF assms(2)]
  show ?thesis
  proof (cases "fst r")
    case False
    with m O login_multifactor_outcome[of E ky msgp trust "xstrlower E username" trusted_id "snd r" s']
      assms(2)
    show ?thesis by simp
  next
    case True
    with m have s': "s' = snd r" by simp
    show ?thesis
    proof (cases "session_v s'")
      case None
      with O True s' show ?thesis by simp
    next
      case (Some sess)
      with ordinary_login_session[OF o, of sess] s'
        session_from_request_nth[of E ky _ s' sess]
      show ?thesis by blast
    qed
  qed
qed

text \<open>
  C8. A failure of the login that is not fatal leaves no session and a message: not so when
  trust is asked for and the out-of-band step fails. \<open>oob_login\<close> then returns \<open>true\<close> with
  the session \<open>NULL\<close> and \<open>lastpass_login\<close> reads \<open>session->token\<close> for the request to
  \<open>trust.php\<close>. This happens when the reply that asks for out-of-band approval names no
  method, and when the transport fails during the poll. Without trust the same two logins
  return no session and a message.
\<close>

theorem login_trust_reads_null_session:
  "map_option (map_sum id (\<lambda>s. (session_v s, message_v s)))
     (lastpass_login (toy_env (always ''oob-unnamed'') 0) ''user'' None ''abc'' ''key'' 100100
        True True state0)
   = Some (Inl NullDeref)
   \<and> map_option (map_sum id (\<lambda>s. (session_v s, message_v s)))
     (lastpass_login (toy_env (first_then_down ''oob-push'') 0) ''user'' None ''abc'' ''key'' 100100
        True True state0)
   = Some (Inl NullDeref)
   \<and> map_option (map_sum id (\<lambda>s. (session_v s, message_v s)))
     (lastpass_login (toy_env (always ''oob-unnamed'') 0) ''user'' None ''abc'' ''key'' 100100
        True False state0)
   = Some (Inr (None, Some ''Could not determine out-of-band type.''))
   \<and> map_option (map_sum id (\<lambda>s. (session_v s, message_v s)))
     (lastpass_login (toy_env (first_then_down ''oob-push'') 0) ''user'' None ''abc'' ''key'' 100100
        True False state0)
   = Some (Inr (None, Some ''Unable to post login request.''))"
  by code_simp

subsection \<open>Whole logins\<close>

text \<open>
  Runs of \<open>lastpass_login\<close>: the first request is accepted; a Google Authenticator code is
  asked for and accepted; out-of-band approval arrives after two polls that found it
  pending, with two progress dots; the primary server redirects and the alternate one
  accepts; and approval with trust asked for, which ends with the request to \<open>trust.php\<close>.
\<close>

lemma scenario_first_request_accepted:
  "map_option (map_sum id (\<lambda>s. (session_v s, length (posts s))))
     (lastpass_login (toy_env (always ''ok'') 0) ''user'' None ''abc'' ''key'' 100100 True False state0)
   = Some (Inr (Some (toy_session\<lparr>server := Some ''lastpass.com''\<rparr>), 1))"
  by code_simp

lemma scenario_google_code:
  "map_option (map_sum id (\<lambda>s. (session_v s, prompts s, length (posts s))))
     (lastpass_login (toy_env_code (first_then_ok ''google'')) ''user'' None ''abc'' ''key'' 100100
        True False state0)
   = Some (Inr (Some (toy_session\<lparr>server := Some ''lastpass.com''\<rparr>), 1, 2))"
  by code_simp

lemma scenario_out_of_band_approved:
  "map_option (map_sum id (\<lambda>s. (session_v s, stderr s, length (posts s))))
     (lastpass_login (toy_env (pending_then_ok 3) 0) ''user'' None ''abc'' ''key'' 100100
        True False state0)
   = Some (Inr (Some (toy_session\<lparr>server := Some ''lastpass.com''\<rparr>),
                [Waiting ''Duo Push'' False, Dot, Dot, Reset], 4))"
  by code_simp

lemma scenario_redirected:
  "map_option (map_sum id (\<lambda>s. (session_v s, length (posts s))))
     (lastpass_login (toy_env redirect_then_ok 0) ''user'' None ''abc'' ''key'' 100100
        True False state0)
   = Some (Inr (Some (toy_session\<lparr>server := Some ''lastpass.eu''\<rparr>), 2))"
  by code_simp

lemma scenario_trust_enrolled:
  "map_option (map_sum id (\<lambda>s. (session_v s, last (posts s))))
     (lastpass_login (toy_env (pending_then_ok 1) 0) ''user'' None ''abc'' ''key'' 100100
        True True state0)
   = Some (Inr (Some (toy_session\<lparr>server := Some ''lastpass.com''\<rparr>),
        Post ''trust.php'' (Some (toy_session\<lparr>server := Some ''lastpass.com''\<rparr>))
          [Some ''token'', Some ''tok'', Some ''uuid'', Some (replicate 32 CHR ''a''),
           Some ''trustlabel'', Some ''host - Linux 6.1'']))"
  by code_simp

end
